theory Spec2Isabelle
  imports Complex_Main "HOL-Library.AList"
begin

section \<open>The event bus (src/event\_bus.py)\<close>

subsection \<open>Events\<close>

text \<open>
  A payload value. The publishers of this repository put strings (\<open>result\<close>,
  \<open>direction\<close>, \<open>item\<close>, \<open>rom\<close>) and integers (\<open>damage\<close>, \<open>healing\<close>, \<open>frame\<close>)
  into the payload dictionary.
\<close>

datatype pval = PInt int | PStr string

type_synonym payload = "(string \<times> pval) list"

text \<open>
  The dataclass \<open>Event\<close>. A \<open>datetime\<close> is a number of microseconds on the time line,
  which is the resolution of Python's \<open>datetime\<close>.
\<close>

record event =
  event_type :: string
  data :: payload
  timestamp :: int

text \<open>\<open>d.get(k, default)\<close> on a dictionary kept as an association list.\<close>

definition dict_get :: "('k \<times> 'v) list \<Rightarrow> 'k \<Rightarrow> 'v \<Rightarrow> 'v" where
  "dict_get d k dflt = (case map_of d k of None \<Rightarrow> dflt | Some v \<Rightarrow> v)"

subsection \<open>The bus state\<close>

text \<open>
  A callback is known by its identity: \<open>list.remove\<close> compares callables with \<open>==\<close>,
  which for functions, lambdas and bound methods of distinct objects is identity.
\<close>

type_synonym hid = nat

text \<open>The records that the methods of \<open>EventBus\<close> hand to the module's logger.\<close>

datatype log_record =
    Info_initialized
  | Info_registered string
  | Info_removed string
  | Warning_not_found string
  | Debug_publishing string nat
  | Error_callback string string
  | Debug_no_subscribers string
  | Info_history_cleared

text \<open>
  \<open>_subscribers\<close> is a dictionary from event type to the list of callbacks, kept as
  an association list in insertion order; \<open>_event_history\<close> is the list of published
  events; \<open>log\<close> collects the logger calls made by the bus, oldest first.
\<close>

record bus =
  subscribers :: "(string \<times> hid list) list"
  event_history :: "event list"
  log :: "log_record list"

definition init_bus :: bus where
  "init_bus = \<lparr>subscribers = [], event_history = [], log = [Info_initialized]\<rparr>"

definition emit :: "log_record \<Rightarrow> bus \<Rightarrow> bus" where
  "emit r b = b\<lparr>log := log b @ [r]\<rparr>"

subsection \<open>subscribe and unsubscribe\<close>

definition subscribe :: "string \<Rightarrow> hid \<Rightarrow> bus \<Rightarrow> bus" where
  "subscribe et cb b =
     (let subs = (if map_of (subscribers b) et = None
                  then AList.update et [] (subscribers b)
                  else subscribers b);
          subs' = AList.update et (dict_get subs et [] @ [cb]) subs
      in emit (Info_registered et) (b\<lparr>subscribers := subs'\<rparr>))"

text \<open>
  \<open>list.remove(x)\<close>: deletes the first element equal to \<open>x\<close>; \<open>None\<close> stands for the
  \<open>ValueError\<close> it raises when there is none.
\<close>

fun list_remove :: "'a \<Rightarrow> 'a list \<Rightarrow> 'a list option" where
  "list_remove x [] = None"
| "list_remove x (y # ys) =
     (if y = x then Some ys else map_option (Cons y) (list_remove x ys))"

text \<open>
  \<open>unsubscribe\<close> is declared \<open>-> None\<close> and has no \<open>return\<close> statement: the first
  component of the result is the value the caller receives, Python's \<open>None\<close> on every
  path. The \<open>ValueError\<close> of \<open>list.remove\<close> is caught inside the method.
\<close>

definition unsubscribe :: "string \<Rightarrow> hid \<Rightarrow> bus \<Rightarrow> unit \<times> bus" where
  "unsubscribe et cb b =
     (case map_of (subscribers b) et of
        None \<Rightarrow> ((), b)
      | Some cbs \<Rightarrow>
          (case list_remove cb cbs of
             Some cbs' \<Rightarrow>
               ((), emit (Info_removed et) (b\<lparr>subscribers := AList.update et cbs' (subscribers b)\<rparr>))
           | None \<Rightarrow> ((), emit (Warning_not_found et) b)))"

subsection \<open>Handlers\<close>

text \<open>
  What a callback does when it is invoked, as far as the bus is concerned: it may call
  \<open>subscribe\<close> and \<open>unsubscribe\<close> on the bus it was registered with, in some order, and
  then it either returns or raises. What it raises is one of three things: an instance
  of \<open>Exception\<close> that the \<open>except\<close> clause can format into its log message (\<open>Std\<close>, with
  the message); an instance of \<open>Exception\<close> whose \<open>__str__\<close> raises in turn, inside the
  \<open>except\<close> clause (\<open>Unprintable\<close>); or an exception that is no instance of \<open>Exception\<close>,
  such as \<open>KeyboardInterrupt\<close> or \<open>SystemExit\<close> (\<open>Exit\<close>). A callback also has a private
  state of its own, of type \<open>'c\<close>, which it may read and update. Callbacks that publish
  from inside a dispatch or clear the history are outside this model.
\<close>

datatype action = Subscribe string hid | Unsubscribe string hid

datatype raised = Std string | Unprintable | Exit string

datatype outcome = Returns | Raises raised

type_synonym 'c handlers = "hid \<Rightarrow> event \<Rightarrow> 'c \<Rightarrow> (action list \<times> outcome) \<times> 'c"

fun action_type :: "action \<Rightarrow> string" where
  "action_type (Subscribe et cb) = et"
| "action_type (Unsubscribe et cb) = et"

fun run_action :: "action \<Rightarrow> bus \<Rightarrow> bus" where
  "run_action (Subscribe et cb) b = subscribe et cb b"
| "run_action (Unsubscribe et cb) b = snd (unsubscribe et cb b)"

fun run_actions :: "action list \<Rightarrow> bus \<Rightarrow> bus" where
  "run_actions [] b = b"
| "run_actions (a # as) b = run_actions as (run_action a b)"

subsection \<open>publish\<close>

text \<open>
  How a piece of code ends: it runs to its end, or an exception leaves it. Either way
  the state reached is kept, since what has been assigned stays assigned.
\<close>

datatype 'a finish = Returned 'a | Propagated 'a

fun state_of :: "'a finish \<Rightarrow> 'a" where
  "state_of (Returned s) = s"
| "state_of (Propagated s) = s"

fun is_returned :: "'a finish \<Rightarrow> bool" where
  "is_returned (Returned s) = True"
| "is_returned (Propagated s) = False"

text \<open>
  The body of the loop, \<open>try: callback(event)\<close> with
  \<open>except Exception as e: logger.error(f"... {e}")\<close>. The clause catches instances of
  \<open>Exception\<close> only, and the message is formatted inside the clause, before the logger
  is called. The third component of the state records the callbacks invoked so far.
\<close>

fun invoke :: "'c handlers \<Rightarrow> event \<Rightarrow> hid \<Rightarrow> bus \<times> 'c \<times> hid list
    \<Rightarrow> (bus \<times> 'c \<times> hid list) finish" where
  "invoke H ev cb (b, c, tr) =
     (let ((acts, out), c') = H cb ev c;
          b' = run_actions acts b
      in case out of
           Returns \<Rightarrow> Returned (b', c', tr @ [cb])
         | Raises (Std msg) \<Rightarrow>
             Returned (emit (Error_callback (event_type ev) msg) b', c', tr @ [cb])
         | Raises Unprintable \<Rightarrow> Propagated (b', c', tr @ [cb])
         | Raises (Exit msg) \<Rightarrow> Propagated (b', c', tr @ [cb]))"

text \<open>
  The loop \<open>for callback in self._subscribers[event_type]\<close>. The list object is
  fetched once, and \<open>subscribe\<close> and \<open>unsubscribe\<close> change that same object in place
  (\<open>append\<close>, \<open>remove\<close>), so the iterator reads the current list: at each step it
  compares its index \<open>i\<close> with the current length, yields the element at \<open>i\<close> and moves
  on. The loop need not end (a callback may append to the list it is called from), so
  it runs on fuel: one unit per invocation, \<open>None\<close> when the fuel is spent.
\<close>

fun dispatch :: "nat \<Rightarrow> 'c handlers \<Rightarrow> event \<Rightarrow> nat \<Rightarrow> bus \<times> 'c \<times> hid list
    \<Rightarrow> (bus \<times> 'c \<times> hid list) finish option" where
  "dispatch 0 H ev i (b, c, tr) =
     (if i < length (dict_get (subscribers b) (event_type ev) []) then None
      else Some (Returned (b, c, tr)))"
| "dispatch (Suc fuel) H ev i (b, c, tr) =
     (let cbs = dict_get (subscribers b) (event_type ev) [] in
      if i < length cbs then
        (case invoke H ev (cbs ! i) (b, c, tr) of
           Returned st \<Rightarrow> dispatch fuel H ev (i + 1) st
         | Propagated st \<Rightarrow> Some (Propagated st))
      else Some (Returned (b, c, tr)))"

text \<open>
  \<open>publish(event_type, data)\<close> at clock reading \<open>now\<close> (the \<open>datetime.now()\<close> of the
  event's \<open>__post_init__\<close>). \<open>data or {}\<close> turns a missing payload into the empty
  dictionary.
\<close>

definition publish :: "nat \<Rightarrow> 'c handlers \<Rightarrow> string \<Rightarrow> payload option \<Rightarrow> int
    \<Rightarrow> bus \<times> 'c \<Rightarrow> (bus \<times> 'c \<times> hid list) finish option" where
  "publish fuel H et d now st =
     (let ev = \<lparr>event_type = et, data = (case d of None \<Rightarrow> [] | Some x \<Rightarrow> x), timestamp = now\<rparr>;
          b1 = (fst st)\<lparr>event_history := event_history (fst st) @ [ev]\<rparr>
      in case map_of (subscribers b1) et of
           Some cbs \<Rightarrow> dispatch fuel H ev 0 (emit (Debug_publishing et (length cbs)) b1, snd st, [])
         | None \<Rightarrow> Some (Returned (emit (Debug_no_subscribers et) b1, snd st, [])))"

definition get_event_history :: "bus \<Rightarrow> event list" where
  "get_event_history b = event_history b"

definition clear_history :: "bus \<Rightarrow> bus" where
  "clear_history b = emit Info_history_cleared (b\<lparr>event_history := []\<rparr>)"

text \<open>
  \<open>get_subscribers_count(event_type=None)\<close>. The test \<open>if event_type:\<close> is Python's
  truth test: \<open>None\<close> and the empty string are both false.
\<close>

definition get_subscribers_count :: "string option \<Rightarrow> bus \<Rightarrow> nat" where
  "get_subscribers_count et b =
     (case et of
        Some t \<Rightarrow> (if t \<noteq> [] then length (dict_get (subscribers b) t [])
                   else sum_list (map (\<lambda>kv. length (snd kv)) (subscribers b)))
      | None \<Rightarrow> sum_list (map (\<lambda>kv. length (snd kv)) (subscribers b)))"

subsection \<open>Example buses\<close>

text \<open>One callback registered twice for \<open>a\<close>, with another one in between.\<close>

definition bus121 :: bus where
  "bus121 = subscribe ''a'' 1 (subscribe ''a'' 2 (subscribe ''a'' 1 init_bus))"

subsection \<open>Sequences of publish calls\<close>

text \<open>
  A caller that publishes one event after the other: each call is the event type, the
  payload argument and the clock reading at which the event is constructed. A call that
  does not return leaves the caller stuck, and an exception that leaves a call ends the
  sequence there.
\<close>

type_synonym call = "string \<times> payload option \<times> int"

definition event_of :: "call \<Rightarrow> event" where
  "event_of cl = \<lparr>event_type = fst cl,
                  data = (case fst (snd cl) of None \<Rightarrow> [] | Some x \<Rightarrow> x),
                  timestamp = snd (snd cl)\<rparr>"

fun publish_all :: "nat \<Rightarrow> 'c handlers \<Rightarrow> call list \<Rightarrow> bus \<times> 'c
    \<Rightarrow> (bus \<times> 'c) finish option" where
  "publish_all fuel H [] st = Some (Returned st)"
| "publish_all fuel H (cl # cls) st =
     (case publish fuel H (fst cl) (fst (snd cl)) (snd (snd cl)) st of
        None \<Rightarrow> None
      | Some (Returned r) \<Rightarrow> publish_all fuel H cls (fst r, fst (snd r))
      | Some (Propagated r) \<Rightarrow> Some (Propagated (fst r, fst (snd r))))"

subsection \<open>The dispatch of the specification\<close>

text \<open>
  The specification has \<open>publish\<close> dispatch to a snapshot of the subscriber sequence
  taken at dispatch start: the same loop body, run over a fixed list \<open>cbs\<close>, whatever
  the callbacks do to the registry meanwhile. The code is compared with it below.
\<close>

fun dispatch_snapshot :: "'c handlers \<Rightarrow> event \<Rightarrow> hid list \<Rightarrow> bus \<times> 'c \<times> hid list
    \<Rightarrow> (bus \<times> 'c \<times> hid list) finish" where
  "dispatch_snapshot H ev [] st = Returned st"
| "dispatch_snapshot H ev (cb # cbs) st =
     (case invoke H ev cb st of
        Returned st' \<Rightarrow> dispatch_snapshot H ev cbs st'
      | Propagated st' \<Rightarrow> Propagated st')"

text \<open>
  The \<open>publish\<close> of the specification: it appends the event and then dispatches to
  the subscriber sequence as it is at that moment.
\<close>

definition publish_snapshot :: "'c handlers \<Rightarrow> string \<Rightarrow> payload option \<Rightarrow> int
    \<Rightarrow> bus \<times> 'c \<Rightarrow> (bus \<times> 'c \<times> hid list) finish" where
  "publish_snapshot H et d now st =
     (let ev = \<lparr>event_type = et, data = (case d of None \<Rightarrow> [] | Some x \<Rightarrow> x), timestamp = now\<rparr>;
          b1 = (fst st)\<lparr>event_history := event_history (fst st) @ [ev]\<rparr>
      in case map_of (subscribers b1) et of
           Some cbs \<Rightarrow>
             dispatch_snapshot H ev cbs (emit (Debug_publishing et (length cbs)) b1, snd st, [])
         | None \<Rightarrow> Returned (emit (Debug_no_subscribers et) b1, snd st, []))"

text \<open>The private state after the callbacks \<open>cbs\<close> have each been applied once, in order.\<close>

definition run_handlers :: "'c handlers \<Rightarrow> event \<Rightarrow> hid list \<Rightarrow> 'c \<Rightarrow> 'c" where
  "run_handlers H ev cbs c = foldl (\<lambda>s cb. snd (H cb ev s)) c cbs"

text \<open>What a caller and an onlooker see of a publish: whether it returned, and whom it invoked.\<close>

definition summary :: "(bus \<times> 'c \<times> hid list) finish \<Rightarrow> bool \<times> hid list" where
  "summary r = (is_returned r, snd (snd (state_of r)))"

subsection \<open>Conditions on the callbacks of one publish\<close>

text \<open>An exception of the callback leaves \<open>publish\<close>.\<close>

fun escapes :: "outcome \<Rightarrow> bool" where
  "escapes Returns = False"
| "escapes (Raises (Std msg)) = False"
| "escapes (Raises Unprintable) = True"
| "escapes (Raises (Exit msg)) = True"

text \<open>
  In the dispatch of event \<open>ev\<close> to the callbacks \<open>cbs\<close>, started with private state
  \<open>c\<close>, no callback that gets invoked subscribes or unsubscribes anything for the type
  of \<open>ev\<close> (it may do so for other types). Only this one dispatch is looked at: each
  callback is taken with the event and the state it is really invoked with, and the
  callbacks behind one that lets an exception out are not invoked at all.
\<close>

fun leaves_alone :: "'c handlers \<Rightarrow> event \<Rightarrow> hid list \<Rightarrow> 'c \<Rightarrow> bool" where
  "leaves_alone H ev [] c = True"
| "leaves_alone H ev (cb # cbs) c =
     (list_all (\<lambda>a. action_type a \<noteq> event_type ev) (fst (fst (H cb ev c)))
      \<and> (escapes (snd (fst (H cb ev c))) \<or> leaves_alone H ev cbs (snd (H cb ev c))))"

text \<open>In the same dispatch, no callback lets an exception out of \<open>publish\<close>.\<close>

fun no_escape :: "'c handlers \<Rightarrow> event \<Rightarrow> hid list \<Rightarrow> 'c \<Rightarrow> bool" where
  "no_escape H ev [] c = True"
| "no_escape H ev (cb # cbs) c =
     (\<not> escapes (snd (fst (H cb ev c))) \<and> no_escape H ev cbs (snd (H cb ev c)))"

fun is_subscribe :: "action \<Rightarrow> bool" where
  "is_subscribe (Subscribe et cb) = True"
| "is_subscribe (Unsubscribe et cb) = False"

text \<open>No callback ever calls \<open>subscribe\<close> (any may call \<open>unsubscribe\<close>).\<close>

definition never_subscribes :: "'c handlers \<Rightarrow> bool" where
  "never_subscribes H = (\<forall>cb ev c. \<forall>a \<in> set (fst (fst (H cb ev c))). \<not> is_subscribe a)"

text \<open>No callback ever lets an exception out of \<open>publish\<close>.\<close>

definition never_escapes :: "'c handlers \<Rightarrow> bool" where
  "never_escapes H = (\<forall>cb ev c. \<not> escapes (snd (fst (H cb ev c))))"

subsection \<open>Example callbacks\<close>

text \<open>Callbacks 0, 1 (and 2) registered for \<open>x\<close>, in this order.\<close>

definition bus_x01 :: bus where
  "bus_x01 = subscribe ''x'' 1 (subscribe ''x'' 0 init_bus)"

definition bus_x012 :: bus where
  "bus_x012 = subscribe ''x'' 2 bus_x01"

text \<open>Callback 0 subscribes callback 2 to the event type it is called for.\<close>

definition H_adds :: "unit handlers" where
  "H_adds cb ev c = ((if cb = 0 then [Subscribe ''x'' 2] else [], Returns), c)"

text \<open>Callback 0 unsubscribes itself from the event type it is called for.\<close>

definition H_leaves :: "unit handlers" where
  "H_leaves cb ev c = ((if cb = 0 then [Unsubscribe ''x'' 0] else [], Returns), c)"

text \<open>
  Callback 0 changes the registrations of \<open>y\<close> when it is called for another type, and
  those of \<open>x\<close> when it is called for \<open>y\<close>. Every callback counts its invocations in the
  private state.
\<close>

definition H_elsewhere :: "nat handlers" where
  "H_elsewhere cb ev c =
     ((if cb = 0 then
         (if event_type ev = ''y'' then [Unsubscribe ''x'' 1]
          else [Subscribe ''y'' 2, Unsubscribe ''y'' 1])
       else [], Returns), c + 1)"

text \<open>
  Callback 0 raises an \<open>Exception\<close>; the others return. Every callback appends its
  own number to the private state.
\<close>

definition H_raise :: "(nat list) handlers" where
  "H_raise cb ev c = (([], if cb = 0 then Raises (Std ''boom'') else Returns), c @ [cb])"



definition calls3 :: "call list" where
  "calls3 = [(''x'', None, 0), (''nobody'', Some [(''k'', PInt 1)], 1), (''x'', Some [], 2)]"

section \<open>The event processors (src/event\_processors.py)\<close>

text \<open>
  Every class has a method \<open>get_statistics\<close> and several have handlers of the same
  name, so the methods carry a prefix for their class: \<open>bc\<close> for
  \<open>BattleCounterProcessor\<close>, \<open>sc\<close> for \<open>StepCounterProcessor\<close>, \<open>gt\<close> for
  \<open>GameTimeTracker\<close>, \<open>hm\<close> for \<open>HealthMonitor\<close>, \<open>it\<close> for \<open>InteractionTracker\<close> and
  \<open>rg\<close> for \<open>ReportGenerator\<close>. A handler takes the event and the object's state and
  returns the new state. The \<open>get_statistics\<close> methods assign to no attribute; they
  return the dictionary only.
\<close>

subsection \<open>Statistics values\<close>

text \<open>
  The values found in a statistics dictionary. A Python \<open>float\<close> is kept as the exact
  rational it stands for: the quotient \<open>a / b\<close> of two integers and
  \<open>timedelta.total_seconds()\<close> are the nearest doubles of these rationals.
\<close>

datatype val =
    VNone
  | VInt int
  | VFloat rat
  | VStr string
  | VTime int
  | VDict "(string \<times> val) list"

type_synonym snapshot = "(string \<times> val) list"

subsection \<open>BattleCounterProcessor\<close>

record battle_counter =
  battle_count :: int
  battles_won :: int
  battles_lost :: int
  last_battle_time :: "int option"

definition bc_init :: battle_counter where
  "bc_init = \<lparr>battle_count = 0, battles_won = 0, battles_lost = 0, last_battle_time = None\<rparr>"

definition bc_on_battle_started :: "event \<Rightarrow> battle_counter \<Rightarrow> battle_counter" where
  "bc_on_battle_started ev s =
     s\<lparr>battle_count := battle_count s + 1, last_battle_time := Some (timestamp ev)\<rparr>"

definition bc_on_battle_ended :: "event \<Rightarrow> battle_counter \<Rightarrow> battle_counter" where
  "bc_on_battle_ended ev s =
     (let result = dict_get (data ev) ''result'' (PStr ''unknown'') in
      if result = PStr ''won'' then s\<lparr>battles_won := battles_won s + 1\<rparr>
      else if result = PStr ''lost'' then s\<lparr>battles_lost := battles_lost s + 1\<rparr>
      else s)"

definition bc_get_statistics :: "battle_counter \<Rightarrow> snapshot" where
  "bc_get_statistics s =
     [(''total_battles'', VInt (battle_count s)),
      (''battles_won'', VInt (battles_won s)),
      (''battles_lost'', VInt (battles_lost s)),
      (''win_rate'', if battle_count s > 0
                     then VFloat (of_int (battles_won s) / of_int (battle_count s))
                     else VInt 0),
      (''last_battle_time'', case last_battle_time s of None \<Rightarrow> VNone | Some t \<Rightarrow> VTime t)]"

text \<open>
  What the bus delivers to the object: the constructor subscribes \<open>on_battle_started\<close>
  to \<open>battle_started\<close> and \<open>on_battle_ended\<close> to \<open>battle_ended\<close>, and nothing else.
\<close>

definition bc_observe :: "event \<Rightarrow> battle_counter \<Rightarrow> battle_counter" where
  "bc_observe ev s =
     (if event_type ev = ''battle_started'' then bc_on_battle_started ev s
      else if event_type ev = ''battle_ended'' then bc_on_battle_ended ev s
      else s)"

fun bc_run :: "event list \<Rightarrow> battle_counter \<Rightarrow> battle_counter" where
  "bc_run [] s = s"
| "bc_run (ev # evs) s = bc_run evs (bc_observe ev s)"

subsection \<open>StepCounterProcessor\<close>

record step_counter =
  step_count :: int
  steps_by_direction :: "(string \<times> int) list"

definition sc_init :: step_counter where
  "sc_init = \<lparr>step_count = 0,
              steps_by_direction = [(''up'', 0), (''down'', 0), (''left'', 0), (''right'', 0)]\<rparr>"

text \<open>
  \<open>direction in self.steps_by_direction\<close>: the keys are strings, so a payload value
  that is not a string is not among them.
\<close>

definition sc_on_player_moved :: "event \<Rightarrow> step_counter \<Rightarrow> step_counter" where
  "sc_on_player_moved ev s =
     (let s1 = s\<lparr>step_count := step_count s + 1\<rparr> in
      case dict_get (data ev) ''direction'' (PStr ''unknown'') of
        PStr d \<Rightarrow>
          (case map_of (steps_by_direction s1) d of
             Some n \<Rightarrow> s1\<lparr>steps_by_direction := AList.update d (n + 1) (steps_by_direction s1)\<rparr>
           | None \<Rightarrow> s1)
      | PInt n \<Rightarrow> s1)"

definition sc_get_statistics :: "step_counter \<Rightarrow> snapshot" where
  "sc_get_statistics s =
     [(''total_steps'', VInt (step_count s)),
      (''steps_by_direction'', VDict (map (\<lambda>kv. (fst kv, VInt (snd kv))) (steps_by_direction s)))]"

subsection \<open>GameTimeTracker\<close>

text \<open>
  \<open>total_pause_duration\<close> is a number of seconds: it starts as the integer 0 and
  becomes a float with the first \<open>total_seconds()\<close> added to it. A number is an \<open>int\<close>
  or a \<open>float\<close>; adding or subtracting a float gives a float. Floats are kept exact
  here, so the rounding of Python's float sums is not part of the model.
\<close>

datatype number = NInt int | NFloat rat

fun to_rat :: "number \<Rightarrow> rat" where
  "to_rat (NInt n) = of_int n"
| "to_rat (NFloat q) = q"

fun num_val :: "number \<Rightarrow> val" where
  "num_val (NInt n) = VInt n"
| "num_val (NFloat q) = VFloat q"

record game_time_tracker =
  start_time :: "int option"
  end_time :: "int option"
  pause_count :: int
  total_pause_duration :: number
  current_pause_start :: "int option"

definition gt_init :: game_time_tracker where
  "gt_init = \<lparr>start_time = None, end_time = None, pause_count = 0,
              total_pause_duration = NInt 0, current_pause_start = None\<rparr>"

text \<open>\<open>(t2 - t1).total_seconds()\<close> for two instants given in microseconds.\<close>

definition total_seconds :: "int \<Rightarrow> int \<Rightarrow> rat" where
  "total_seconds t2 t1 = of_int (t2 - t1) / 1000000"

definition gt_on_game_started :: "event \<Rightarrow> game_time_tracker \<Rightarrow> game_time_tracker" where
  "gt_on_game_started ev s = s\<lparr>start_time := Some (timestamp ev)\<rparr>"

definition gt_on_game_ended :: "event \<Rightarrow> game_time_tracker \<Rightarrow> game_time_tracker" where
  "gt_on_game_ended ev s = s\<lparr>end_time := Some (timestamp ev)\<rparr>"

definition gt_on_game_paused :: "event \<Rightarrow> game_time_tracker \<Rightarrow> game_time_tracker" where
  "gt_on_game_paused ev s =
     s\<lparr>pause_count := pause_count s + 1, current_pause_start := Some (timestamp ev)\<rparr>"

text \<open>
  \<open>if self.current_pause_start:\<close> is a truth test on \<open>None\<close> or a \<open>datetime\<close>, and a
  \<open>datetime\<close> is always true; the same holds for \<open>not self.start_time\<close> and
  \<open>self.end_time or datetime.now()\<close> below.
\<close>

definition gt_on_game_resumed :: "event \<Rightarrow> game_time_tracker \<Rightarrow> game_time_tracker" where
  "gt_on_game_resumed ev s =
     (case current_pause_start s of
        Some ps \<Rightarrow>
          s\<lparr>total_pause_duration :=
              NFloat (to_rat (total_pause_duration s) + total_seconds (timestamp ev) ps),
            current_pause_start := None\<rparr>
      | None \<Rightarrow> s)"

text \<open>\<open>now\<close> is what \<open>datetime.now()\<close> returns if the method reads the clock.\<close>

definition gt_get_statistics :: "int \<Rightarrow> game_time_tracker \<Rightarrow> snapshot" where
  "gt_get_statistics now s =
     (case start_time s of
        None \<Rightarrow> [(''status'', VStr ''not_started'')]
      | Some st \<Rightarrow>
          (let end = (case end_time s of Some e \<Rightarrow> e | None \<Rightarrow> now);
               total_duration = total_seconds end st;
               active_duration = total_duration - to_rat (total_pause_duration s)
           in [(''start_time'', VTime st),
               (''end_time'', case end_time s of None \<Rightarrow> VNone | Some e \<Rightarrow> VTime e),
               (''total_duration_seconds'', VFloat total_duration),
               (''active_duration_seconds'', VFloat active_duration),
               (''pause_count'', VInt (pause_count s)),
               (''total_pause_duration_seconds'', num_val (total_pause_duration s))]))"

definition gt_observe :: "event \<Rightarrow> game_time_tracker \<Rightarrow> game_time_tracker" where
  "gt_observe ev s =
     (if event_type ev = ''game_started'' then gt_on_game_started ev s
      else if event_type ev = ''game_ended'' then gt_on_game_ended ev s
      else if event_type ev = ''game_paused'' then gt_on_game_paused ev s
      else if event_type ev = ''game_resumed'' then gt_on_game_resumed ev s
      else s)"

fun gt_run :: "event list \<Rightarrow> game_time_tracker \<Rightarrow> game_time_tracker" where
  "gt_run [] s = s"
| "gt_run (ev # evs) s = gt_run evs (gt_observe ev s)"

subsection \<open>HealthMonitor\<close>

record health_monitor =
  damage_taken :: int
  healing_received :: int
  knockouts :: int
  current_health :: int
  max_health :: int

definition hm_init :: health_monitor where
  "hm_init = \<lparr>damage_taken = 0, healing_received = 0, knockouts = 0,
              current_health = 100, max_health = 100\<rparr>"

text \<open>
  An amount that is a string makes \<open>self.damage_taken += damage\<close> raise a
  \<open>TypeError\<close> before anything is assigned.
\<close>

datatype error = TypeError

definition hm_on_player_damaged :: "event \<Rightarrow> health_monitor \<Rightarrow> error + health_monitor" where
  "hm_on_player_damaged ev s =
     (case dict_get (data ev) ''damage'' (PInt 0) of
        PInt damage \<Rightarrow>
          Inr (s\<lparr>damage_taken := damage_taken s + damage,
                 current_health := max 0 (current_health s - damage)\<rparr>)
      | PStr x \<Rightarrow> Inl TypeError)"

definition hm_on_player_healed :: "event \<Rightarrow> health_monitor \<Rightarrow> error + health_monitor" where
  "hm_on_player_healed ev s =
     (case dict_get (data ev) ''healing'' (PInt 0) of
        PInt healing \<Rightarrow>
          Inr (s\<lparr>healing_received := healing_received s + healing,
                 current_health := min (max_health s) (current_health s + healing)\<rparr>)
      | PStr x \<Rightarrow> Inl TypeError)"

definition hm_on_player_fainted :: "event \<Rightarrow> health_monitor \<Rightarrow> health_monitor" where
  "hm_on_player_fainted ev s = s\<lparr>knockouts := knockouts s + 1, current_health := 0\<rparr>"

definition hm_get_statistics :: "health_monitor \<Rightarrow> snapshot" where
  "hm_get_statistics s =
     [(''current_health'', VInt (current_health s)),
      (''max_health'', VInt (max_health s)),
      (''total_damage_taken'', VInt (damage_taken s)),
      (''total_healing_received'', VInt (healing_received s)),
      (''knockouts'', VInt (knockouts s)),
      (''net_damage'', VInt (damage_taken s - healing_received s))]"

text \<open>
  What the bus delivers to the object; an exception raised by a handler is caught by
  the dispatch loop, and the handler has changed nothing by then.
\<close>

definition hm_observe :: "event \<Rightarrow> health_monitor \<Rightarrow> health_monitor" where
  "hm_observe ev s =
     (if event_type ev = ''player_damaged''
        then (case hm_on_player_damaged ev s of Inr s' \<Rightarrow> s' | Inl e \<Rightarrow> s)
      else if event_type ev = ''player_healed''
        then (case hm_on_player_healed ev s of Inr s' \<Rightarrow> s' | Inl e \<Rightarrow> s)
      else if event_type ev = ''player_fainted'' then hm_on_player_fainted ev s
      else s)"

fun hm_run :: "event list \<Rightarrow> health_monitor \<Rightarrow> health_monitor" where
  "hm_run [] s = s"
| "hm_run (ev # evs) s = hm_run evs (hm_observe ev s)"

subsection \<open>InteractionTracker\<close>

record interaction_tracker =
  npc_interactions :: int
  items_collected :: int
  doors_opened :: int
  menus_opened :: int

definition it_init :: interaction_tracker where
  "it_init = \<lparr>npc_interactions = 0, items_collected = 0, doors_opened = 0, menus_opened = 0\<rparr>"

definition it_on_npc_interaction :: "event \<Rightarrow> interaction_tracker \<Rightarrow> interaction_tracker" where
  "it_on_npc_interaction ev s = s\<lparr>npc_interactions := npc_interactions s + 1\<rparr>"

definition it_on_item_collected :: "event \<Rightarrow> interaction_tracker \<Rightarrow> interaction_tracker" where
  "it_on_item_collected ev s = s\<lparr>items_collected := items_collected s + 1\<rparr>"

definition it_on_door_opened :: "event \<Rightarrow> interaction_tracker \<Rightarrow> interaction_tracker" where
  "it_on_door_opened ev s = s\<lparr>doors_opened := doors_opened s + 1\<rparr>"

definition it_on_menu_opened :: "event \<Rightarrow> interaction_tracker \<Rightarrow> interaction_tracker" where
  "it_on_menu_opened ev s = s\<lparr>menus_opened := menus_opened s + 1\<rparr>"

definition it_get_statistics :: "interaction_tracker \<Rightarrow> snapshot" where
  "it_get_statistics s =
     [(''npc_interactions'', VInt (npc_interactions s)),
      (''items_collected'', VInt (items_collected s)),
      (''doors_opened'', VInt (doors_opened s)),
      (''menus_opened'', VInt (menus_opened s))]"

subsection \<open>ReportGenerator\<close>

text \<open>
  The objects of \<open>GameApplication\<close> (src/main.py) are shared: the dictionary
  \<open>processors\<close> handed to the \<open>ReportGenerator\<close> holds references to the live
  processors, and the application then stores the generator itself in that same
  dictionary under \<open>report_generator\<close>. A reference names one of the objects of the
  application; \<open>PlainRef\<close> stands for an object without a \<open>get_statistics\<close> attribute.
\<close>

datatype ref = BattleRef | StepRef | TimeRef | HealthRef | InteractionRef | ReportRef | PlainRef

record report =
  generated_at :: int
  statistics :: "(string \<times> snapshot) list"

record report_generator =
  processors :: "(string \<times> ref) list"
  reports_generated :: int

text \<open>
  The store: one state per object, and \<open>stdout\<close> for the reports handed to
  \<open>print_report\<close>, oldest first (how a report is rendered is not modelled).
\<close>

record app =
  battle_counter :: battle_counter
  step_counter :: step_counter
  game_time :: game_time_tracker
  health_monitor :: health_monitor
  interaction_tracker :: interaction_tracker
  report_generator :: report_generator
  stdout :: "report list"

definition rg_get_statistics :: "report_generator \<Rightarrow> snapshot" where
  "rg_get_statistics g = [(''reports_generated'', VInt (reports_generated g))]"

text \<open>
  \<open>processor.get_statistics()\<close> behind \<open>hasattr(processor, 'get_statistics')\<close>:
  \<open>None\<close> when the object has no such attribute. \<open>clock\<close> is the reading of
  \<open>datetime.now()\<close> in case the method looks at the clock.
\<close>

definition get_statistics :: "int \<Rightarrow> app \<Rightarrow> ref \<Rightarrow> snapshot option" where
  "get_statistics clock a r =
     (case r of
        BattleRef \<Rightarrow> Some (bc_get_statistics (battle_counter a))
      | StepRef \<Rightarrow> Some (sc_get_statistics (step_counter a))
      | TimeRef \<Rightarrow> Some (gt_get_statistics clock (game_time a))
      | HealthRef \<Rightarrow> Some (hm_get_statistics (health_monitor a))
      | InteractionRef \<Rightarrow> Some (it_get_statistics (interaction_tracker a))
      | ReportRef \<Rightarrow> Some (rg_get_statistics (report_generator a))
      | PlainRef \<Rightarrow> None)"

text \<open>
  The loop of \<open>generate_report\<close> over \<open>self.processors.items()\<close>, filling
  \<open>report["statistics"]\<close>.
\<close>

fun collect :: "int \<Rightarrow> app \<Rightarrow> (string \<times> ref) list \<Rightarrow> (string \<times> snapshot) list
    \<Rightarrow> (string \<times> snapshot) list" where
  "collect clock a [] acc = acc"
| "collect clock a (p # ps) acc =
     (case get_statistics clock a (snd p) of
        Some snap \<Rightarrow> collect clock a ps (AList.update (fst p) snap acc)
      | None \<Rightarrow> collect clock a ps acc)"

text \<open>
  \<open>generate_report()\<close>: \<open>now\<close> is the clock reading stamped into the report, \<open>clock\<close>
  the later reading seen by the processors.
\<close>

definition generate_report :: "int \<Rightarrow> int \<Rightarrow> app \<Rightarrow> report" where
  "generate_report now clock a =
     \<lparr>generated_at = now,
      statistics = collect clock a (processors (report_generator a)) []\<rparr>"

definition print_report :: "report \<Rightarrow> app \<Rightarrow> app" where
  "print_report rep a = a\<lparr>stdout := stdout a @ [rep]\<rparr>"

definition rg_on_generate_report :: "int \<Rightarrow> int \<Rightarrow> event \<Rightarrow> app \<Rightarrow> app" where
  "rg_on_generate_report now clock ev a =
     (let rep = generate_report now clock a;
          a1 = print_report rep a
      in a1\<lparr>report_generator :=
             (report_generator a1)\<lparr>reports_generated := reports_generated (report_generator a1) + 1\<rparr>\<rparr>)"

definition rg_on_game_ended :: "int \<Rightarrow> int \<Rightarrow> event \<Rightarrow> app \<Rightarrow> app" where
  "rg_on_game_ended now clock ev a =
     (let rep = generate_report now clock a in print_report rep a)"

text \<open>
  The objects and the dictionary built by \<open>GameApplication.__init__\<close>: five
  processors, then the generator, stored in the dictionary it was given.
\<close>

definition init_app :: app where
  "init_app =
     \<lparr>battle_counter = bc_init, step_counter = sc_init, game_time = gt_init,
      health_monitor = hm_init, interaction_tracker = it_init,
      report_generator =
        \<lparr>processors = [(''battle_counter'', BattleRef), (''step_counter'', StepRef),
                        (''game_time'', TimeRef), (''health_monitor'', HealthRef),
                        (''interaction_tracker'', InteractionRef),
                        (''report_generator'', ReportRef)],
         reports_generated = 0\<rparr>,
      stdout = []\<rparr>"

subsection \<open>Example events\<close>

definition mk_event :: "string \<Rightarrow> payload \<Rightarrow> int \<Rightarrow> event" where
  "mk_event et d t = \<lparr>event_type = et, data = d, timestamp = t\<rparr>"

text \<open>Three battles started, then ended with the results won, lost, won.\<close>

definition battles3 :: "event list" where
  "battles3 =
     [mk_event ''battle_started'' [] 1, mk_event ''battle_started'' [] 2,
      mk_event ''battle_started'' [] 3,
      mk_event ''battle_ended'' [(''result'', PStr ''won'')] 4,
      mk_event ''battle_ended'' [(''result'', PStr ''lost'')] 5,
      mk_event ''battle_ended'' [(''result'', PStr ''won'')] 6]"

text \<open>Damage 25, damage 15, healing 30.\<close>

definition damage25 :: event where
  "damage25 = mk_event ''player_damaged'' [(''damage'', PInt 25)] 1"

definition damage15 :: event where
  "damage15 = mk_event ''player_damaged'' [(''damage'', PInt 15)] 2"

definition heal30 :: event where
  "heal30 = mk_event ''player_healed'' [(''healing'', PInt 30)] 3"

text \<open>
  A session started at \<open>t0\<close>, paused 10 seconds later, resumed at 15 seconds and
  ended at 20 seconds (instants in microseconds).
\<close>

definition session :: "int \<Rightarrow> event list" where
  "session t0 =
     [mk_event ''game_started'' [] t0,
      mk_event ''game_paused'' [] (t0 + 10000000),
      mk_event ''game_resumed'' [] (t0 + 15000000),
      mk_event ''game_ended'' [] (t0 + 20000000)]"

text \<open>The tracker is running: it has seen \<open>game_started\<close> and no \<open>game_ended\<close>.\<close>

definition running :: "game_time_tracker \<Rightarrow> bool" where
  "running s = (start_time s \<noteq> None \<and> end_time s = None)"

subsection \<open>Example states of the application\<close>

text \<open>A tracker that has seen \<open>game_started\<close> at instant 0 and nothing else.\<close>

definition started_tracker :: game_time_tracker where
  "started_tracker = gt_on_game_started (mk_event ''game_started'' [] 0) gt_init"

definition started_app :: app where
  "started_app = init_app\<lparr>game_time := started_tracker\<rparr>"

section \<open>Properties of the event bus\<close>

subsection \<open>Removing from a list\<close>

lemma list_remove_None: "list_remove x xs = None \<longleftrightarrow> x \<notin> set xs"
  by (induction xs) auto

lemma list_remove_first:
  "x \<notin> set pre \<Longrightarrow> list_remove x (pre @ x # post) = Some (pre @ post)"
  by (induction pre) auto

subsection \<open>unsubscribe\<close>

text \<open>
  Claim C4, as stated: a call of \<open>unsubscribe\<close> that finds no matching registration
  signals the miss to its caller with a "not found" indication. It does not. On a bus
  with no entry for the event type the call gives back \<open>None\<close> and the very same bus:
  registry, history and log are untouched, so nothing tells the miss apart from not
  calling at all; and the value returned on a miss is the value returned on a hit.
\<close>

theorem unsubscribe_no_indication:
  "unsubscribe ''battle_started'' 7 init_bus = ((), init_bus)
   \<and> fst (unsubscribe ''battle_started'' 7 init_bus)
       = fst (unsubscribe ''battle_started'' 7 (subscribe ''battle_started'' 7 init_bus))"
  by (simp add: unsubscribe_def init_bus_def)

text \<open>
  Claim C4, amended: \<open>unsubscribe\<close> never raises and returns \<open>None\<close> on every path.
  When the event type has no entry, the bus is left exactly as it was. When the type has
  an entry that does not hold the callback, the registry is unchanged and the only trace
  is a warning handed to the logger. When the entry holds the callback, exactly its
  first occurrence is removed (the elements before and after it stay, in order) and the
  other entries of the registry are unchanged.
\<close>

theorem unsubscribe_cases:
  "(map_of (subscribers b) et = None \<longrightarrow> unsubscribe et cb b = ((), b))
   \<and> (map_of (subscribers b) et = Some cbs \<and> cb \<notin> set cbs \<longrightarrow>
         unsubscribe et cb b = ((), emit (Warning_not_found et) b)
         \<and> subscribers (snd (unsubscribe et cb b)) = subscribers b)
   \<and> (map_of (subscribers b) et = Some (pre @ cb # post) \<and> cb \<notin> set pre \<longrightarrow>
         unsubscribe et cb b
           = ((), emit (Info_removed et)
                    (b\<lparr>subscribers := AList.update et (pre @ post) (subscribers b)\<rparr>))
         \<and> map_of (subscribers (snd (unsubscribe et cb b)))
             = (map_of (subscribers b))(et \<mapsto> pre @ post))"
proof (intro conjI impI)
  assume "map_of (subscribers b) et = None"
  then show "unsubscribe et cb b = ((), b)" by (simp add: unsubscribe_def)
next
  assume h: "map_of (subscribers b) et = Some cbs \<and> cb \<notin> set cbs"
  then have "list_remove cb cbs = None" by (simp add: list_remove_None)
  with h show u: "unsubscribe et cb b = ((), emit (Warning_not_found et) b)"
    by (simp add: unsubscribe_def)
  show "subscribers (snd (unsubscribe et cb b)) = subscribers b"
    by (simp add: u emit_def)
next
  assume h: "map_of (subscribers b) et = Some (pre @ cb # post) \<and> cb \<notin> set pre"
  then have r: "list_remove cb (pre @ cb # post) = Some (pre @ post)"
    by (simp add: list_remove_first)
  with h show u: "unsubscribe et cb b
           = ((), emit (Info_removed et)
                    (b\<lparr>subscribers := AList.update et (pre @ post) (subscribers b)\<rparr>))"
    by (simp add: unsubscribe_def)
  show "map_of (subscribers (snd (unsubscribe et cb b)))
             = (map_of (subscribers b))(et \<mapsto> pre @ post)"
    by (simp add: u emit_def update_conv')
qed

theorem unsubscribe_cases_witness:
  "map_of (subscribers bus121) ''b'' = None \<and> unsubscribe ''b'' 1 bus121 = ((), bus121)
   \<and> map_of (subscribers bus121) ''a'' = Some [1, 2, 1] \<and> 3 \<notin> set [1, 2, 1::nat]
   \<and> subscribers (snd (unsubscribe ''a'' 3 bus121)) = subscribers bus121
   \<and> map_of (subscribers bus121) ''a'' = Some ([] @ 1 # [2, 1]) \<and> 1 \<notin> set ([]::nat list)
   \<and> map_of (subscribers (snd (unsubscribe ''a'' 1 bus121))) ''a'' = Some [2, 1]"
proof -
  have m: "map_of (subscribers bus121) ''a'' = Some [1, 2, 1]"
    "map_of (subscribers bus121) ''b'' = None"
    by (simp_all add: bus121_def subscribe_def init_bus_def emit_def dict_get_def)
  show ?thesis
    using unsubscribe_cases [of bus121 "''b''" 1 "[]" "[]" "[]"]
      unsubscribe_cases [of bus121 "''a''" 3 "[1, 2, 1]" "[]" "[]"]
      unsubscribe_cases [of bus121 "''a''" 1 "[]" "[]" "[2, 1]"] m
    by (simp add: emit_def update_conv')
qed

subsection \<open>get\_subscribers\_count\<close>

text \<open>
  Claim C10: \<open>get_subscribers_count("")\<close> returns the total over all event types, as a
  call without argument does, and not the number of callbacks registered under the
  type \<open>""\<close>: on a bus with one callback under \<open>""\<close> and two under \<open>a\<close> it returns 3.
\<close>

theorem get_subscribers_count_empty_string:
  "get_subscribers_count (Some '''') b = get_subscribers_count None b
   \<and> get_subscribers_count (Some '''') b = sum_list (map (\<lambda>kv. length (snd kv)) (subscribers b))
   \<and> get_subscribers_count (Some '''')
        (subscribe ''a'' 2 (subscribe ''a'' 1 (subscribe '''' 0 init_bus))) = 3
   \<and> length (dict_get (subscribers (subscribe ''a'' 2 (subscribe ''a'' 1 (subscribe '''' 0 init_bus)))) '''' []) = 1"
  by (simp add: get_subscribers_count_def subscribe_def init_bus_def emit_def dict_get_def)

subsection \<open>What callbacks can change\<close>

lemma history_emit [simp]: "event_history (emit r b) = event_history b"
  by (simp add: emit_def)

lemma subscribers_emit [simp]: "subscribers (emit r b) = subscribers b"
  by (simp add: emit_def)

lemma history_run_action [simp]: "event_history (run_action a b) = event_history b"
  by (cases a) (auto simp: subscribe_def unsubscribe_def Let_def split: option.splits)

lemma history_run_actions [simp]: "event_history (run_actions as b) = event_history b"
  by (induction as arbitrary: b) auto

lemma lookup_run_action_other:
  "action_type a \<noteq> et \<Longrightarrow> map_of (subscribers (run_action a b)) et = map_of (subscribers b) et"
  by (cases a) (auto simp: subscribe_def unsubscribe_def Let_def update_conv' split: option.splits)

lemma lookup_run_actions_other:
  "list_all (\<lambda>a. action_type a \<noteq> et) as \<Longrightarrow>
     map_of (subscribers (run_actions as b)) et = map_of (subscribers b) et"
  by (induction as arbitrary: b) (auto simp: lookup_run_action_other)

lemma invoke_bus:
  "fst (state_of (invoke H ev cb (b, c, tr)))
     = (case snd (fst (H cb ev c)) of
          Raises (Std msg) \<Rightarrow>
            emit (Error_callback (event_type ev) msg) (run_actions (fst (fst (H cb ev c))) b)
        | _ \<Rightarrow> run_actions (fst (fst (H cb ev c))) b)"
  by (auto simp: Let_def split: prod.splits outcome.splits raised.splits)

lemma invoke_rest:
  "snd (state_of (invoke H ev cb (b, c, tr))) = (snd (H cb ev c), tr @ [cb])"
  by (auto simp: Let_def split: prod.splits outcome.splits raised.splits)

lemma invoke_returned:
  "is_returned (invoke H ev cb (b, c, tr)) \<longleftrightarrow> \<not> escapes (snd (fst (H cb ev c)))"
  by (auto simp: Let_def split: prod.splits outcome.splits raised.splits)

lemma invoke_history:
  "event_history (fst (state_of (invoke H ev cb (b, c, tr)))) = event_history b"
  by (auto simp: Let_def split: prod.splits outcome.splits raised.splits)

lemma invoke_subscribers:
  "subscribers (fst (state_of (invoke H ev cb (b, c, tr))))
     = subscribers (run_actions (fst (fst (H cb ev c))) b)"
  by (auto simp: Let_def split: prod.splits outcome.splits raised.splits)

declare invoke.simps [simp del]

lemma finish_cases:
  obtains s where "r = Returned s" "is_returned r" "state_of r = s"
  | s where "r = Propagated s" "\<not> is_returned r" "state_of r = s"
  by (cases r) auto

subsection \<open>The loop leaves the history alone\<close>

lemma dispatch_history:
  "dispatch fuel H ev i st = Some r \<Longrightarrow>
     event_history (fst (state_of r)) = event_history (fst st)"
proof (induction fuel arbitrary: i st)
  case 0
  then show ?case by (cases st) (auto split: if_splits)
next
  case (Suc fuel)
  obtain b c tr where st: "st = (b, c, tr)" by (cases st)
  show ?case
  proof (cases "i < length (dict_get (subscribers b) (event_type ev) [])")
    case False
    with Suc.prems st show ?thesis by auto
  next
    case True
    let ?r = "invoke H ev (dict_get (subscribers b) (event_type ev) [] ! i) (b, c, tr)"
    have h: "event_history (fst (state_of ?r)) = event_history b"
      by (rule invoke_history)
    show ?thesis
    proof (cases ?r rule: finish_cases)
      case (1 s)
      with Suc.prems st True have "dispatch fuel H ev (i + 1) s = Some r" by simp
      from Suc.IH [OF this] h 1 st show ?thesis by simp
    next
      case (2 s)
      with Suc.prems st True have "r = Propagated s" by simp
      with h 2 st show ?thesis by simp
    qed
  qed
qed

lemma snapshot_history:
  "event_history (fst (state_of (dispatch_snapshot H ev cbs st))) = event_history (fst st)"
proof (induction cbs arbitrary: st)
  case Nil
  then show ?case by simp
next
  case (Cons cb cbs)
  obtain b c tr where st: "st = (b, c, tr)" by (cases st)
  have h: "event_history (fst (state_of (invoke H ev cb (b, c, tr)))) = event_history b"
    by (rule invoke_history)
  show ?case
  proof (cases "invoke H ev cb (b, c, tr)" rule: finish_cases)
    case (1 s)
    with Cons.IH [of s] h st show ?thesis by simp
  next
    case (2 s)
    with h st show ?thesis by simp
  qed
qed

subsection \<open>The loop against the dispatch of the specification\<close>

lemma dispatch_is_snapshot:
  "leaves_alone H ev (drop i cbs) c \<Longrightarrow>
   dict_get (subscribers b) (event_type ev) [] = cbs \<Longrightarrow> i \<le> length cbs \<Longrightarrow>
   length cbs - i \<le> fuel \<Longrightarrow>
     dispatch fuel H ev i (b, c, tr) = Some (dispatch_snapshot H ev (drop i cbs) (b, c, tr))"
proof (induction fuel arbitrary: i b c tr)
  case 0
  then show ?case by simp
next
  case (Suc fuel)
  show ?case
  proof (cases "i < length cbs")
    case False
    with Suc.prems show ?thesis by simp
  next
    case True
    then have d: "drop i cbs = cbs ! i # drop (i + 1) cbs"
      by (simp add: Cons_nth_drop_Suc)
    let ?cb = "cbs ! i"
    let ?r = "invoke H ev ?cb (b, c, tr)"
    from Suc.prems(1) d
    have off: "list_all (\<lambda>a. action_type a \<noteq> event_type ev) (fst (fst (H ?cb ev c)))"
      and rest: "escapes (snd (fst (H ?cb ev c))) \<or> leaves_alone H ev (drop (i + 1) cbs) (snd (H ?cb ev c))"
      by simp_all
    show ?thesis
    proof (cases ?r rule: finish_cases)
      case (1 s)
      obtain b2 c2 tr2 where s: "s = (b2, c2, tr2)" by (cases s)
      from 1 invoke_returned [of H ev ?cb b c tr]
      have ne: "\<not> escapes (snd (fst (H ?cb ev c)))" by simp
      from 1 s invoke_rest [of H ev ?cb b c tr] have c2: "c2 = snd (H ?cb ev c)" by simp
      from 1 s invoke_subscribers [of H ev ?cb b c tr]
      have "subscribers b2 = subscribers (run_actions (fst (fst (H ?cb ev c))) b)" by simp
      with lookup_run_actions_other [OF off, of b] Suc.prems(2)
      have g: "dict_get (subscribers b2) (event_type ev) [] = cbs"
        by (simp add: dict_get_def)
      have la: "leaves_alone H ev (drop (i + 1) cbs) c2" using rest ne c2 by simp
      have le: "i + 1 \<le> length cbs" "length cbs - (i + 1) \<le> fuel"
        using True Suc.prems(4) by auto
      from Suc.IH [OF la g le, of tr2]
      have "dispatch fuel H ev (i + 1) s = Some (dispatch_snapshot H ev (drop (i + 1) cbs) s)"
        by (simp add: s)
      with 1 True Suc.prems(2) d show ?thesis by simp
    next
      case (2 s)
      with True Suc.prems(2) d show ?thesis by simp
    qed
  qed
qed

lemma snapshot_lookup:
  "leaves_alone H ev cbs c \<Longrightarrow>
     map_of (subscribers (fst (state_of (dispatch_snapshot H ev cbs (b, c, tr))))) (event_type ev)
       = map_of (subscribers b) (event_type ev)"
proof (induction cbs arbitrary: b c tr)
  case Nil
  then show ?case by simp
next
  case (Cons cb cbs)
  let ?r = "invoke H ev cb (b, c, tr)"
  from Cons.prems
  have off: "list_all (\<lambda>a. action_type a \<noteq> event_type ev) (fst (fst (H cb ev c)))"
    and rest: "escapes (snd (fst (H cb ev c))) \<or> leaves_alone H ev cbs (snd (H cb ev c))"
    by simp_all
  have g: "map_of (subscribers (fst (state_of ?r))) (event_type ev)
      = map_of (subscribers b) (event_type ev)"
    using lookup_run_actions_other [OF off, of b] by (simp add: invoke_subscribers)
  show ?case
  proof (cases ?r rule: finish_cases)
    case (1 s)
    obtain b2 c2 tr2 where s: "s = (b2, c2, tr2)" by (cases s)
    from 1 invoke_returned [of H ev cb b c tr]
    have ne: "\<not> escapes (snd (fst (H cb ev c)))" by simp
    from 1 s invoke_rest [of H ev cb b c tr] have c2: "c2 = snd (H cb ev c)" by simp
    have "leaves_alone H ev cbs c2" using rest ne c2 by simp
    from Cons.IH [OF this, of b2 tr2] g 1 s show ?thesis by simp
  next
    case (2 s)
    with g show ?thesis by simp
  qed
qed

lemma snapshot_returned:
  "dispatch_snapshot H ev cbs (b, c, tr) = Returned (b', c', tr') \<Longrightarrow>
     tr' = tr @ cbs \<and> c' = run_handlers H ev cbs c \<and> no_escape H ev cbs c"
proof (induction cbs arbitrary: b c tr)
  case Nil
  then show ?case by (simp add: run_handlers_def)
next
  case (Cons cb cbs)
  let ?r = "invoke H ev cb (b, c, tr)"
  show ?case
  proof (cases ?r rule: finish_cases)
    case (1 s)
    obtain b2 c2 tr2 where s: "s = (b2, c2, tr2)" by (cases s)
    from 1 invoke_returned [of H ev cb b c tr]
    have ne: "\<not> escapes (snd (fst (H cb ev c)))" by simp
    from 1 s invoke_rest [of H ev cb b c tr]
    have c2: "c2 = snd (H cb ev c)" and tr2: "tr2 = tr @ [cb]" by simp_all
    from Cons.prems 1 s have "dispatch_snapshot H ev cbs (b2, c2, tr2) = Returned (b', c', tr')"
      by simp
    from Cons.IH [OF this] ne c2 tr2 show ?thesis
      by (simp add: run_handlers_def)
  next
    case (2 s)
    with Cons.prems show ?thesis by simp
  qed
qed


lemma snapshot_propagated:
  "dispatch_snapshot H ev cbs (b, c, tr) = Propagated (b', c', tr') \<Longrightarrow>
     \<exists>k < length cbs. tr' = tr @ take (Suc k) cbs
        \<and> c' = run_handlers H ev (take (Suc k) cbs) c
        \<and> escapes (snd (fst (H (cbs ! k) ev (run_handlers H ev (take k cbs) c))))"
proof (induction cbs arbitrary: b c tr)
  case Nil
  then show ?case by simp
next
  case (Cons cb cbs)
  let ?r = "invoke H ev cb (b, c, tr)"
  show ?case
  proof (cases ?r rule: finish_cases)
    case (1 s)
    obtain b2 c2 tr2 where s: "s = (b2, c2, tr2)" by (cases s)
    from 1 s invoke_rest [of H ev cb b c tr]
    have c2: "c2 = snd (H cb ev c)" and tr2: "tr2 = tr @ [cb]" by simp_all
    from Cons.prems 1 s have "dispatch_snapshot H ev cbs (b2, c2, tr2) = Propagated (b', c', tr')"
      by simp
    from Cons.IH [OF this] obtain k where k: "k < length cbs" "tr' = tr2 @ take (Suc k) cbs"
      "c' = run_handlers H ev (take (Suc k) cbs) c2"
      "escapes (snd (fst (H (cbs ! k) ev (run_handlers H ev (take k cbs) c2))))"
      by blast
    have "Suc k < length (cb # cbs)" using k(1) by simp
    moreover have "tr' = tr @ take (Suc (Suc k)) (cb # cbs)" using k(2) tr2 by simp
    moreover have "c' = run_handlers H ev (take (Suc (Suc k)) (cb # cbs)) c"
      using k(3) c2 by (simp add: run_handlers_def)
    moreover have "escapes (snd (fst (H ((cb # cbs) ! Suc k) ev
        (run_handlers H ev (take (Suc k) (cb # cbs)) c))))"
      using k(4) c2 by (simp add: run_handlers_def)
    ultimately show ?thesis by blast
  next
    case (2 s)
    from 2 invoke_returned [of H ev cb b c tr]
    have e: "escapes (snd (fst (H cb ev c)))" by simp
    from 2 Cons.prems have "s = (b', c', tr')" by simp
    with 2 invoke_rest [of H ev cb b c tr]
    have "c' = snd (H cb ev c)" "tr' = tr @ [cb]" by simp_all
    with e have "0 < length (cb # cbs) \<and> tr' = tr @ take (Suc 0) (cb # cbs)
        \<and> c' = run_handlers H ev (take (Suc 0) (cb # cbs)) c
        \<and> escapes (snd (fst (H ((cb # cbs) ! 0) ev (run_handlers H ev (take 0 (cb # cbs)) c))))"
      by (simp add: run_handlers_def)
    then show ?thesis by blast
  qed
qed

lemma publish_is_snapshot:
  assumes "leaves_alone H (event_of (et, d, now)) (dict_get (subscribers b) et []) c"
    and "length (dict_get (subscribers b) et []) \<le> fuel"
  shows "publish fuel H et d now (b, c) = Some (publish_snapshot H et d now (b, c))"
proof (cases "map_of (subscribers b) et")
  case None
  then show ?thesis by (simp add: publish_def publish_snapshot_def)
next
  case (Some cbs)
  define ev where "ev = event_of (et, d, now)"
  define b1 where "b1 = emit (Debug_publishing et (length cbs))
      (b\<lparr>event_history := event_history b @ [ev]\<rparr>)"
  have et: "event_type ev = et" by (simp add: ev_def event_of_def)
  have cbs: "dict_get (subscribers b) et [] = cbs" using Some by (simp add: dict_get_def)
  have g: "dict_get (subscribers b1) (event_type ev) [] = cbs"
    using cbs by (simp add: b1_def et)
  have la: "leaves_alone H ev (drop 0 cbs) c" using assms(1) cbs by (simp add: ev_def)
  have "dispatch fuel H ev 0 (b1, c, []) = Some (dispatch_snapshot H ev (drop 0 cbs) (b1, c, []))"
    using assms(2) cbs by (intro dispatch_is_snapshot [OF la g]) simp_all
  then show ?thesis
    using Some by (simp add: publish_def publish_snapshot_def Let_def ev_def event_of_def b1_def)
qed

lemma publish_snapshot_returned:
  assumes "publish_snapshot H et d now (b, c) = Returned (b', c', tr)"
  shows "tr = dict_get (subscribers b) et []
     \<and> c' = run_handlers H (event_of (et, d, now)) (dict_get (subscribers b) et []) c
     \<and> no_escape H (event_of (et, d, now)) (dict_get (subscribers b) et []) c"
proof (cases "map_of (subscribers b) et")
  case None
  with assms show ?thesis
    by (auto simp: publish_snapshot_def dict_get_def run_handlers_def)
next
  case (Some cbs)
  with assms have "dispatch_snapshot H (event_of (et, d, now)) cbs
      (emit (Debug_publishing et (length cbs))
         (b\<lparr>event_history := event_history b @ [event_of (et, d, now)]\<rparr>), c, [])
      = Returned (b', c', tr)"
    by (simp add: publish_snapshot_def Let_def event_of_def)
  from snapshot_returned [OF this] Some show ?thesis by (simp add: dict_get_def)
qed

lemma publish_snapshot_propagated:
  assumes "publish_snapshot H et d now (b, c) = Propagated (b', c', tr)"
  shows "\<exists>k < length (dict_get (subscribers b) et []).
       tr = take (Suc k) (dict_get (subscribers b) et [])
     \<and> c' = run_handlers H (event_of (et, d, now)) (take (Suc k) (dict_get (subscribers b) et [])) c
     \<and> escapes (snd (fst (H (dict_get (subscribers b) et [] ! k) (event_of (et, d, now))
          (run_handlers H (event_of (et, d, now)) (take k (dict_get (subscribers b) et [])) c))))"
proof (cases "map_of (subscribers b) et")
  case None
  with assms show ?thesis by (simp add: publish_snapshot_def)
next
  case (Some cbs)
  with assms have "dispatch_snapshot H (event_of (et, d, now)) cbs
      (emit (Debug_publishing et (length cbs))
         (b\<lparr>event_history := event_history b @ [event_of (et, d, now)]\<rparr>), c, [])
      = Propagated (b', c', tr)"
    by (simp add: publish_snapshot_def Let_def event_of_def)
  from snapshot_propagated [OF this] Some show ?thesis by (simp add: dict_get_def)
qed

lemma publish_snapshot_lookup:
  assumes "leaves_alone H (event_of (et, d, now)) (dict_get (subscribers b) et []) c"
  shows "dict_get (subscribers (fst (state_of (publish_snapshot H et d now (b, c))))) et []
     = dict_get (subscribers b) et []"
proof (cases "map_of (subscribers b) et")
  case None
  then show ?thesis by (simp add: publish_snapshot_def dict_get_def)
next
  case (Some cbs)
  define ev where "ev = event_of (et, d, now)"
  have et: "event_type ev = et" by (simp add: ev_def event_of_def)
  from assms Some have la: "leaves_alone H ev cbs c" by (simp add: dict_get_def ev_def)
  have evr: "\<lparr>event_type = et, data = (case d of None \<Rightarrow> [] | Some x \<Rightarrow> x), timestamp = now\<rparr> = ev"
    by (simp add: ev_def event_of_def)
  from snapshot_lookup [OF la, of "emit (Debug_publishing et (length cbs))
         (b\<lparr>event_history := event_history b @ [ev]\<rparr>)" "[]"] Some
  show ?thesis
    by (simp add: publish_snapshot_def Let_def dict_get_def et evr)
qed

lemma publish_history:
  assumes "publish fuel H et d now (b, c) = Some r"
  shows "event_history (fst (state_of r)) = event_history b @ [event_of (et, d, now)]"
proof (cases "map_of (subscribers b) et")
  case None
  with assms show ?thesis by (auto simp: publish_def event_of_def)
next
  case (Some cbs)
  with assms have "dispatch fuel H (event_of (et, d, now)) 0
      (emit (Debug_publishing et (length cbs))
         (b\<lparr>event_history := event_history b @ [event_of (et, d, now)]\<rparr>), c, [])
      = Some r"
    by (simp add: publish_def event_of_def Let_def)
  from dispatch_history [OF this] show ?thesis by simp
qed


subsection \<open>Termination without subscriptions\<close>

lemma list_remove_length: "list_remove x xs = Some ys \<Longrightarrow> length ys \<le> length xs"
  by (induction xs arbitrary: ys) (auto split: if_splits)

lemma length_run_action:
  "\<not> is_subscribe a \<Longrightarrow>
     length (dict_get (subscribers (run_action a b)) et []) \<le> length (dict_get (subscribers b) et [])"
  by (cases a)
    (auto simp: unsubscribe_def dict_get_def update_conv' dest: list_remove_length split: option.splits)

lemma length_run_actions:
  "\<forall>a \<in> set as. \<not> is_subscribe a \<Longrightarrow>
     length (dict_get (subscribers (run_actions as b)) et []) \<le> length (dict_get (subscribers b) et [])"
proof (induction as arbitrary: b)
  case Nil
  then show ?case by simp
next
  case (Cons a as)
  have "length (dict_get (subscribers (run_actions as (run_action a b))) et [])
          \<le> length (dict_get (subscribers (run_action a b)) et [])"
    using Cons by simp
  also have "\<dots> \<le> length (dict_get (subscribers b) et [])"
    using Cons.prems by (simp add: length_run_action)
  finally show ?case by simp
qed

lemma dispatch_never_subscribes:
  assumes "never_subscribes H"
  shows "length (dict_get (subscribers b) (event_type ev) []) - i \<le> fuel \<Longrightarrow>
         \<exists>r. dispatch fuel H ev i (b, c, tr) = Some r
           \<and> (\<forall>et. length (dict_get (subscribers (fst (state_of r))) et [])
                     \<le> length (dict_get (subscribers b) et []))"
proof (induction fuel arbitrary: i b c tr)
  case 0
  then show ?case by simp
next
  case (Suc fuel)
  let ?cbs = "dict_get (subscribers b) (event_type ev) []"
  show ?case
  proof (cases "i < length ?cbs")
    case False
    then show ?thesis by simp
  next
    case True
    let ?cb = "?cbs ! i"
    let ?q = "invoke H ev ?cb (b, c, tr)"
    from assms have ns: "\<forall>a \<in> set (fst (fst (H ?cb ev c))). \<not> is_subscribe a"
      unfolding never_subscribes_def by blast
    have le: "length (dict_get (subscribers (fst (state_of ?q))) et [])
        \<le> length (dict_get (subscribers b) et [])" for et
      using length_run_actions [OF ns] by (simp add: invoke_subscribers)
    show ?thesis
    proof (cases ?q rule: finish_cases)
      case (1 s)
      obtain b2 c2 tr2 where s: "s = (b2, c2, tr2)" by (cases s)
      from le 1 s have le2: "length (dict_get (subscribers b2) et []) \<le> length (dict_get (subscribers b) et [])" for et
        by simp
      have "length (dict_get (subscribers b2) (event_type ev) []) - (i + 1) \<le> fuel"
        using le2 [of "event_type ev"] Suc.prems by simp
      from Suc.IH [OF this, of c2 tr2]
      obtain r where r: "dispatch fuel H ev (i + 1) (b2, c2, tr2) = Some r"
        "\<forall>et. length (dict_get (subscribers (fst (state_of r))) et [])
                     \<le> length (dict_get (subscribers b2) et [])"
        by blast
      have "\<forall>et. length (dict_get (subscribers (fst (state_of r))) et [])
                     \<le> length (dict_get (subscribers b) et [])"
        using r(2) le2 by (meson order_trans)
      with r(1) True 1 s show ?thesis by simp
    next
      case (2 s)
      with True le show ?thesis by auto
    qed
  qed
qed

lemma dispatch_never_escapes:
  assumes "never_escapes H"
  shows "dispatch fuel H ev i st = Some r \<Longrightarrow> is_returned r"
proof (induction fuel arbitrary: i st)
  case 0
  then show ?case by (cases st) (auto split: if_splits)
next
  case (Suc fuel)
  obtain b c tr where st: "st = (b, c, tr)" by (cases st)
  let ?cbs = "dict_get (subscribers b) (event_type ev) []"
  show ?case
  proof (cases "i < length ?cbs")
    case False
    with Suc.prems st show ?thesis by auto
  next
    case True
    from assms have ne: "\<not> escapes (snd (fst (H (?cbs ! i) ev c)))"
      unfolding never_escapes_def by blast
    show ?thesis
    proof (cases "invoke H ev (?cbs ! i) (b, c, tr)" rule: finish_cases)
      case (1 s)
      with Suc.prems st True have "dispatch fuel H ev (i + 1) s = Some r" by simp
      then show ?thesis by (rule Suc.IH)
    next
      case (2 s)
      with ne invoke_returned [of H ev "?cbs ! i" b c tr] show ?thesis by simp
    qed
  qed
qed

lemma length_le_total:
  "length (dict_get subs et []) \<le> sum_list (map (\<lambda>kv. length (snd kv)) subs)"
  by (induction subs) (auto simp: dict_get_def)

lemma publish_never_subscribes:
  assumes "never_subscribes H" and "length (dict_get (subscribers b) et []) \<le> fuel"
  shows "\<exists>r. publish fuel H et d now (b, c) = Some r
           \<and> (\<forall>t. length (dict_get (subscribers (fst (state_of r))) t [])
                    \<le> length (dict_get (subscribers b) t []))"
proof (cases "map_of (subscribers b) et")
  case None
  then show ?thesis by (simp add: publish_def)
next
  case (Some cbs)
  define ev where "ev = event_of (et, d, now)"
  define b1 where "b1 = emit (Debug_publishing et (length cbs)) (b\<lparr>event_history := event_history b @ [ev]\<rparr>)"
  have sb: "subscribers b1 = subscribers b" by (simp add: b1_def)
  have "length (dict_get (subscribers b1) (event_type ev) []) - 0 \<le> fuel"
    using assms(2) by (simp add: sb ev_def event_of_def)
  from dispatch_never_subscribes [OF assms(1) this, of c "[]"]
  obtain r where r: "dispatch fuel H ev 0 (b1, c, []) = Some r"
    "\<forall>t. length (dict_get (subscribers (fst (state_of r))) t []) \<le> length (dict_get (subscribers b1) t [])"
    by blast
  have "publish fuel H et d now (b, c) = dispatch fuel H ev 0 (b1, c, [])"
    using Some by (simp add: publish_def Let_def ev_def event_of_def b1_def)
  with r sb show ?thesis by simp
qed

lemma publish_never_escapes:
  assumes "never_escapes H" and "publish fuel H et d now (b, c) = Some r"
  shows "is_returned r"
proof (cases "map_of (subscribers b) et")
  case None
  with assms(2) show ?thesis by (auto simp: publish_def)
next
  case (Some cbs)
  with assms(2) have "dispatch fuel H (event_of (et, d, now)) 0
      (emit (Debug_publishing et (length cbs))
         (b\<lparr>event_history := event_history b @ [event_of (et, d, now)]\<rparr>), c, [])
      = Some r"
    by (simp add: publish_def event_of_def Let_def)
  from dispatch_never_escapes [OF assms(1) this] show ?thesis .
qed

lemma publish_all_never_subscribes:
  assumes "never_subscribes H"
  shows "\<forall>t. length (dict_get (subscribers b) t []) \<le> fuel \<Longrightarrow>
         \<exists>r. publish_all fuel H cls (b, c) = Some r"
proof (induction cls arbitrary: b c)
  case Nil
  then show ?case by simp
next
  case (Cons cl cls)
  from Cons.prems have "length (dict_get (subscribers b) (fst cl) []) \<le> fuel" by blast
  from publish_never_subscribes [OF assms this, of "fst (snd cl)" "snd (snd cl)" c]
  obtain q where
    p: "publish fuel H (fst cl) (fst (snd cl)) (snd (snd cl)) (b, c) = Some q"
    and le: "\<forall>t. length (dict_get (subscribers (fst (state_of q))) t []) \<le> length (dict_get (subscribers b) t [])"
    by blast
  show ?case
  proof (cases q rule: finish_cases)
    case (1 s)
    have "\<forall>t. length (dict_get (subscribers (fst s)) t []) \<le> fuel"
      using le 1 Cons.prems by (auto intro: order_trans)
    from Cons.IH [OF this, of "fst (snd s)"] p 1 show ?thesis by simp
  next
    case (2 s)
    with p show ?thesis by simp
  qed
qed

lemma publish_all_never_escapes:
  assumes "never_escapes H"
  shows "publish_all fuel H cls (b, c) = Some r \<Longrightarrow> is_returned r"
proof (induction cls arbitrary: b c)
  case Nil
  then show ?case by auto
next
  case (Cons cl cls)
  from Cons.prems obtain q where
    p: "publish fuel H (fst cl) (fst (snd cl)) (snd (snd cl)) (b, c) = Some q"
    by (auto split: option.splits)
  from publish_never_escapes [OF assms p] obtain s where q: "q = Returned s"
    by (cases q) auto
  with Cons.prems p have "publish_all fuel H cls (fst s, fst (snd s)) = Some r" by simp
  then show ?case by (rule Cons.IH)
qed

subsection \<open>Which callbacks a publish invokes\<close>

text \<open>
  Claim C1, as stated: a publish invokes exactly the callbacks registered for the type
  at dispatch start, and a subscribe or unsubscribe made by a callback during the
  dispatch touches only later publishes. The loop reads the registry's own list, not a
  copy. With callbacks 0 and 1 registered for \<open>x\<close>: when callback 0 subscribes
  callback 2 to \<open>x\<close>, the same publish goes on to invoke 2; when callback 0
  unsubscribes itself, the same publish never invokes callback 1. Both publishes return.
\<close>

theorem publish_live_iteration:
  "map_option summary (publish 5 H_adds ''x'' None 0 (bus_x01, ())) = Some (True, [0, 1, 2])
   \<and> map_option summary (publish 5 H_leaves ''x'' None 0 (bus_x01, ())) = Some (True, [0])
   \<and> dict_get (subscribers bus_x01) ''x'' [] = [0, 1]"
  by code_simp

text \<open>
  Claim C1, amended: when, in the publish in progress, no callback that gets invoked
  subscribes or unsubscribes anything for the type being published (registrations for
  other types may change freely, and so may this type's in other publishes), the code
  does exactly what a dispatch over a snapshot taken at dispatch start does: same bus,
  same callback state, same invocations. So if the publish returns, it has invoked the
  callbacks registered at dispatch start, each once per registration and in
  registration order, the private state is the one these invocations produce, and the
  list for the type is as it was; and if an exception leaves the publish, it has invoked
  them in that order up to the callback whose exception got out. One unit of fuel per
  registered callback is enough.
\<close>

theorem publish_registered_order:
  assumes "leaves_alone H (event_of (et, d, now)) (dict_get (subscribers b) et []) c"
    and "length (dict_get (subscribers b) et []) \<le> fuel"
  shows "publish fuel H et d now (b, c) = Some (publish_snapshot H et d now (b, c))
     \<and> (publish fuel H et d now (b, c) = Some (Returned (b', c', tr)) \<longrightarrow>
          tr = dict_get (subscribers b) et []
          \<and> c' = run_handlers H (event_of (et, d, now)) (dict_get (subscribers b) et []) c
          \<and> dict_get (subscribers b') et [] = dict_get (subscribers b) et [])
     \<and> (publish fuel H et d now (b, c) = Some (Propagated (b', c', tr)) \<longrightarrow>
          (\<exists>k < length (dict_get (subscribers b) et []).
              tr = take (Suc k) (dict_get (subscribers b) et [])
            \<and> c' = run_handlers H (event_of (et, d, now))
                     (take (Suc k) (dict_get (subscribers b) et [])) c
            \<and> escapes (snd (fst (H (dict_get (subscribers b) et [] ! k) (event_of (et, d, now))
                 (run_handlers H (event_of (et, d, now))
                    (take k (dict_get (subscribers b) et [])) c))))))"
proof (intro conjI impI)
  show p: "publish fuel H et d now (b, c) = Some (publish_snapshot H et d now (b, c))"
    by (rule publish_is_snapshot [OF assms])
  {
    assume "publish fuel H et d now (b, c) = Some (Returned (b', c', tr))"
    with p have r: "publish_snapshot H et d now (b, c) = Returned (b', c', tr)" by simp
    from publish_snapshot_returned [OF r]
    show "tr = dict_get (subscribers b) et []"
      and "c' = run_handlers H (event_of (et, d, now)) (dict_get (subscribers b) et []) c"
      by simp_all
    from publish_snapshot_lookup [OF assms(1)] r
    show "dict_get (subscribers b') et [] = dict_get (subscribers b) et []" by simp
  }
  {
    assume "publish fuel H et d now (b, c) = Some (Propagated (b', c', tr))"
    with p have "publish_snapshot H et d now (b, c) = Propagated (b', c', tr)" by simp
    from publish_snapshot_propagated [OF this]
    show "\<exists>k < length (dict_get (subscribers b) et []).
              tr = take (Suc k) (dict_get (subscribers b) et [])
            \<and> c' = run_handlers H (event_of (et, d, now))
                     (take (Suc k) (dict_get (subscribers b) et [])) c
            \<and> escapes (snd (fst (H (dict_get (subscribers b) et [] ! k) (event_of (et, d, now))
                 (run_handlers H (event_of (et, d, now))
                    (take k (dict_get (subscribers b) et [])) c))))" .
  }
qed

theorem publish_registered_order_witness:
  "leaves_alone H_elsewhere (event_of (''x'', None, 0)) (dict_get (subscribers bus_x01) ''x'' []) 0
   \<and> length (dict_get (subscribers bus_x01) ''x'' []) \<le> 2
   \<and> dict_get (subscribers bus_x01) ''x'' [] = [0, 1]
   \<and> fst (fst (H_elsewhere 0 (event_of (''y'', None, 0)) 0)) = [Unsubscribe ''x'' 1]
   \<and> (\<exists>b'. publish 2 H_elsewhere ''x'' None 0 (bus_x01, 0) = Some (Returned (b', 2, [0, 1]))
         \<and> dict_get (subscribers b') ''x'' [] = [0, 1]
         \<and> dict_get (subscribers b') ''y'' [] = [2])"
proof -
  have g: "dict_get (subscribers bus_x01) ''x'' [] = [0, 1]"
    by (simp add: bus_x01_def subscribe_def init_bus_def emit_def dict_get_def)
  have k: "leaves_alone H_elsewhere (event_of (''x'', None, 0))
      (dict_get (subscribers bus_x01) ''x'' []) 0"
    by (simp add: g H_elsewhere_def event_of_def)
  have l: "length (dict_get (subscribers bus_x01) ''x'' []) \<le> 2"
    by (simp add: g)
  have y: "fst (fst (H_elsewhere 0 (event_of (''y'', None, 0)) 0)) = [Unsubscribe ''x'' 1]"
    by (simp add: H_elsewhere_def event_of_def)
  have s: "is_returned (publish_snapshot H_elsewhere ''x'' None 0 (bus_x01, 0))
      \<and> dict_get (subscribers (fst (state_of (publish_snapshot H_elsewhere ''x'' None 0 (bus_x01, 0))))) ''y'' [] = [2]"
    by code_simp
  from publish_registered_order [OF k l]
  have p: "publish 2 H_elsewhere ''x'' None 0 (bus_x01, 0)
      = Some (publish_snapshot H_elsewhere ''x'' None 0 (bus_x01, 0))" by blast
  obtain b' c' tr where r: "publish_snapshot H_elsewhere ''x'' None 0 (bus_x01, 0) = Returned (b', c', tr)"
    using s by (cases "publish_snapshot H_elsewhere ''x'' None 0 (bus_x01, 0)") auto
  from publish_registered_order [OF k l, of b' c' tr] p r
  have "tr = dict_get (subscribers bus_x01) ''x'' []"
    and "c' = run_handlers H_elsewhere (event_of (''x'', None, 0)) (dict_get (subscribers bus_x01) ''x'' []) 0"
    and "dict_get (subscribers b') ''x'' [] = dict_get (subscribers bus_x01) ''x'' []"
    by simp_all
  then have "tr = [0, 1]" and "c' = 2" and "dict_get (subscribers b') ''x'' [] = [0, 1]"
    by (simp_all add: g run_handlers_def H_elsewhere_def)
  moreover from s r have "dict_get (subscribers b') ''y'' [] = [2]" by simp
  ultimately show ?thesis using k l g y p r by simp
qed

subsection \<open>Callbacks that raise\<close>




subsection \<open>The history\<close>

lemma publish_all_history:
  "publish_all fuel H cls (b, c) = Some r \<Longrightarrow>
     (is_returned r \<longrightarrow> event_history (fst (state_of r)) = event_history b @ map event_of cls)
   \<and> (\<not> is_returned r \<longrightarrow>
        (\<exists>n < length cls.
           event_history (fst (state_of r)) = event_history b @ map event_of (take (Suc n) cls)))"
proof (induction cls arbitrary: b c)
  case Nil
  then show ?case by auto
next
  case (Cons cl cls)
  from Cons.prems obtain q where
    p: "publish fuel H (fst cl) (fst (snd cl)) (snd (snd cl)) (b, c) = Some q"
    by (auto split: option.splits)
  from publish_history [OF p]
  have h: "event_history (fst (state_of q)) = event_history b @ [event_of cl]" by simp
  show ?case
  proof (cases q rule: finish_cases)
    case (1 s)
    with Cons.prems p have "publish_all fuel H cls (fst s, fst (snd s)) = Some r" by simp
    from Cons.IH [OF this] h 1 show ?thesis by auto
  next
    case (2 s)
    with Cons.prems p have "r = Propagated (fst s, fst (snd s))" by simp
    with h 2 have "\<not> is_returned r"
      and "event_history (fst (state_of r)) = event_history b @ map event_of (take (Suc 0) (cl # cls))"
      by simp_all
    then show ?thesis by auto
  qed
qed

text \<open>
  Claim C2: after a sequence of publish calls the history has grown by exactly the
  published events, one per call and in call order, so its length has grown by the
  number of calls, whatever the callbacks did and whether or not they raised; when an
  exception leaves one of the calls, the same holds for the calls made up to and
  including that one. The sequence does come to an end when no callback subscribes and
  the fuel covers the registered callbacks, and it returns when moreover no callback
  lets an exception out; and a publish for a type without any subscriber returns at
  once, with the event appended and nobody invoked. The event is appended before any
  callback is invoked: the dispatch loop starts, at index 0 and with nobody invoked
  yet, from a bus whose history already ends with the event.
\<close>

theorem history_counts_publish_calls:
  "(publish_all fuel H cls (b, c) = Some (Returned (b', c')) \<longrightarrow>
      event_history b' = event_history b @ map event_of cls
      \<and> length (event_history b') = length (event_history b) + length cls)
   \<and> (publish_all fuel H cls (b, c) = Some (Propagated (b', c')) \<longrightarrow>
        (\<exists>n < length cls.
           event_history b' = event_history b @ map event_of (take (Suc n) cls)
           \<and> length (event_history b') = length (event_history b) + Suc n))
   \<and> (never_subscribes H \<and> get_subscribers_count None b \<le> fuel \<longrightarrow>
        (\<exists>r. publish_all fuel H cls (b, c) = Some r))
   \<and> (never_subscribes H \<and> never_escapes H \<and> get_subscribers_count None b \<le> fuel \<longrightarrow>
        (\<exists>st. publish_all fuel H cls (b, c) = Some (Returned st)))
   \<and> (map_of (subscribers b) et = None \<longrightarrow>
        publish fuel H et d now (b, c)
          = Some (Returned (emit (Debug_no_subscribers et)
                    (b\<lparr>event_history := event_history b @ [event_of (et, d, now)]\<rparr>), c, [])))
   \<and> (map_of (subscribers b) et \<noteq> None \<longrightarrow>
        (\<exists>b1. event_history b1 = event_history b @ [event_of (et, d, now)]
           \<and> subscribers b1 = subscribers b
           \<and> publish fuel H et d now (b, c)
               = dispatch fuel H (event_of (et, d, now)) 0 (b1, c, [])))"
proof (intro conjI impI)
  assume "publish_all fuel H cls (b, c) = Some (Returned (b', c'))"
  from publish_all_history [OF this]
  show "event_history b' = event_history b @ map event_of cls" by simp
  then show "length (event_history b') = length (event_history b) + length cls" by simp
next
  assume "publish_all fuel H cls (b, c) = Some (Propagated (b', c'))"
  from publish_all_history [OF this]
  obtain n where n: "n < length cls"
    "event_history b' = event_history b @ map event_of (take (Suc n) cls)"
    by auto
  then have "length (event_history b') = length (event_history b) + Suc n" by simp
  with n show "\<exists>n < length cls.
           event_history b' = event_history b @ map event_of (take (Suc n) cls)
           \<and> length (event_history b') = length (event_history b) + Suc n"
    by blast
next
  assume h: "never_subscribes H \<and> get_subscribers_count None b \<le> fuel"
  have "\<forall>t. length (dict_get (subscribers b) t []) \<le> fuel"
  proof
    fix t
    have "length (dict_get (subscribers b) t []) \<le> get_subscribers_count None b"
      by (simp add: get_subscribers_count_def length_le_total)
    with h show "length (dict_get (subscribers b) t []) \<le> fuel" by simp
  qed
  with h publish_all_never_subscribes [of H b fuel cls c]
  show "\<exists>r. publish_all fuel H cls (b, c) = Some r"
    by blast
next
  assume h: "never_subscribes H \<and> never_escapes H \<and> get_subscribers_count None b \<le> fuel"
  have "\<forall>t. length (dict_get (subscribers b) t []) \<le> fuel"
  proof
    fix t
    have "length (dict_get (subscribers b) t []) \<le> get_subscribers_count None b"
      by (simp add: get_subscribers_count_def length_le_total)
    with h show "length (dict_get (subscribers b) t []) \<le> fuel" by simp
  qed
  with h publish_all_never_subscribes [of H b fuel cls c]
  obtain r where r: "publish_all fuel H cls (b, c) = Some r" by blast
  from h publish_all_never_escapes [OF _ r] have "is_returned r" by blast
  with r show "\<exists>st. publish_all fuel H cls (b, c) = Some (Returned st)"
    by (cases r) auto
next
  assume "map_of (subscribers b) et = None"
  then show "publish fuel H et d now (b, c)
          = Some (Returned (emit (Debug_no_subscribers et)
                    (b\<lparr>event_history := event_history b @ [event_of (et, d, now)]\<rparr>), c, []))"
    by (simp add: publish_def event_of_def)
next
  assume "map_of (subscribers b) et \<noteq> None"
  then obtain cbs where s: "map_of (subscribers b) et = Some cbs" by blast
  define b1 where "b1 = emit (Debug_publishing et (length cbs))
      (b\<lparr>event_history := event_history b @ [event_of (et, d, now)]\<rparr>)"
  have "event_history b1 = event_history b @ [event_of (et, d, now)]"
    and "subscribers b1 = subscribers b"
    by (simp_all add: b1_def)
  moreover have "publish fuel H et d now (b, c)
      = dispatch fuel H (event_of (et, d, now)) 0 (b1, c, [])"
    using s by (simp add: publish_def event_of_def Let_def b1_def)
  ultimately show "\<exists>b1. event_history b1 = event_history b @ [event_of (et, d, now)]
           \<and> subscribers b1 = subscribers b
           \<and> publish fuel H et d now (b, c)
               = dispatch fuel H (event_of (et, d, now)) 0 (b1, c, [])"
    by blast
qed

theorem history_counts_publish_calls_witness:
  "never_subscribes H_raise \<and> never_escapes H_raise \<and> get_subscribers_count None bus_x012 \<le> 3
   \<and> map_of (subscribers bus_x012) ''nobody'' = None
   \<and> (\<exists>b' c'. publish_all 3 H_raise calls3 (bus_x012, []) = Some (Returned (b', c'))
         \<and> length (event_history bus_x012) = 0 \<and> length calls3 = 3
         \<and> length (event_history b') = 3)
   \<and> (\<exists>b'. publish 0 H_raise ''nobody'' None 4 (bus_x012, []) = Some (Returned (b', [], []))
         \<and> length (event_history b') = 1)"
proof -
  have s: "subscribers bus_x012 = [(''x'', [0, 1, 2])]" and e: "event_history bus_x012 = []"
    by (simp_all add: bus_x012_def bus_x01_def subscribe_def init_bus_def emit_def dict_get_def)
  have n: "never_subscribes H_raise" by (simp add: never_subscribes_def H_raise_def)
  have x: "never_escapes H_raise" by (simp add: never_escapes_def H_raise_def)
  have t: "get_subscribers_count None bus_x012 \<le> 3" by (simp add: get_subscribers_count_def s)
  have m: "map_of (subscribers bus_x012) ''nobody'' = None" by (simp add: s)
  from history_counts_publish_calls [of 3 H_raise calls3 bus_x012 "[]" bus_x012 "[]" "[]" None 0] n x t
  have "\<exists>st. publish_all 3 H_raise calls3 (bus_x012, []) = Some (Returned st)"
    by blast
  then obtain b' c' where p: "publish_all 3 H_raise calls3 (bus_x012, []) = Some (Returned (b', c'))"
    by force
  from history_counts_publish_calls [of 3 H_raise calls3 bus_x012 "[]" b' c'] p
  have "length (event_history b') = length (event_history bus_x012) + length calls3" by blast
  then have l: "length (event_history b') = 3" by (simp add: e calls3_def)
  from history_counts_publish_calls [of 0 H_raise "[]" bus_x012 "[]" bus_x012 "[]" "''nobody''" None 4] m
  have q: "publish 0 H_raise ''nobody'' None 4 (bus_x012, [])
          = Some (Returned (emit (Debug_no_subscribers ''nobody'')
                    (bus_x012\<lparr>event_history := event_history bus_x012 @ [event_of (''nobody'', None, 4)]\<rparr>), [], []))"
    by blast
  show ?thesis using n x t m p l q e by (simp add: calls3_def)
qed

section \<open>Properties of the event processors\<close>

subsection \<open>BattleCounterProcessor\<close>

lemma bc_observe_counts:
  "battle_count (bc_observe ev s)
     = battle_count s + (if event_type ev = ''battle_started'' then 1 else 0)
   \<and> battles_won (bc_observe ev s)
     = battles_won s + (if event_type ev = ''battle_ended''
           \<and> map_of (data ev) ''result'' = Some (PStr ''won'') then 1 else 0)
   \<and> battles_lost (bc_observe ev s)
     = battles_lost s + (if event_type ev = ''battle_ended''
           \<and> map_of (data ev) ''result'' = Some (PStr ''lost'') then 1 else 0)"
  by (auto simp: bc_observe_def bc_on_battle_started_def bc_on_battle_ended_def dict_get_def
      Let_def split: option.splits)

lemma bc_run_counts:
  "battle_count (bc_run evs s)
     = battle_count s + int (length (filter (\<lambda>e. event_type e = ''battle_started'') evs))
   \<and> battles_won (bc_run evs s)
     = battles_won s + int (length (filter (\<lambda>e. event_type e = ''battle_ended''
           \<and> map_of (data e) ''result'' = Some (PStr ''won'')) evs))
   \<and> battles_lost (bc_run evs s)
     = battles_lost s + int (length (filter (\<lambda>e. event_type e = ''battle_ended''
           \<and> map_of (data e) ''result'' = Some (PStr ''lost'')) evs))"
proof (induction evs arbitrary: s)
  case Nil
  then show ?case by simp
next
  case (Cons ev evs)
  show ?case
    using Cons.IH [of "bc_observe ev s"] bc_observe_counts [of ev s]
    by (simp split: if_splits)
qed

lemma bc_scenario:
  "bc_get_statistics (bc_run battles3 bc_init)
     = [(''total_battles'', VInt 3), (''battles_won'', VInt 2), (''battles_lost'', VInt 1),
        (''win_rate'', VFloat (2 / 3)), (''last_battle_time'', VTime 3)]"
  by (simp add: battles3_def mk_event_def bc_init_def bc_observe_def bc_on_battle_started_def
      bc_on_battle_ended_def dict_get_def bc_get_statistics_def)

text \<open>
  Claim C5: \<open>battle_started\<close> adds one to \<open>battle_count\<close> and records the event's
  timestamp; \<open>battle_ended\<close> adds one to the wins when the payload's \<open>result\<close> is
  \<open>"won"\<close>, one to the losses when it is \<open>"lost"\<close>, and nothing when it is anything
  else or missing; the snapshot's \<open>win_rate\<close> is wins over battles when there has been
  a battle and the integer 0 otherwise. Over any sequence of events the three counters
  grow by the number of events of each kind. Three battles started and then ended won,
  lost, won give 3 battles, 2 wins, 1 loss and a win rate of 2/3.
\<close>

theorem battle_counter_rules:
  "battle_count (bc_on_battle_started ev s) = battle_count s + 1
   \<and> last_battle_time (bc_on_battle_started ev s) = Some (timestamp ev)
   \<and> battles_won (bc_on_battle_started ev s) = battles_won s
   \<and> battles_lost (bc_on_battle_started ev s) = battles_lost s
   \<and> battles_won (bc_on_battle_ended ev s)
       = battles_won s + (if map_of (data ev) ''result'' = Some (PStr ''won'') then 1 else 0)
   \<and> battles_lost (bc_on_battle_ended ev s)
       = battles_lost s + (if map_of (data ev) ''result'' = Some (PStr ''lost'') then 1 else 0)
   \<and> battle_count (bc_on_battle_ended ev s) = battle_count s
   \<and> map_of (bc_get_statistics s) ''win_rate''
       = Some (if battle_count s > 0
               then VFloat (of_int (battles_won s) / of_int (battle_count s)) else VInt 0)
   \<and> battle_count (bc_run evs s)
       = battle_count s + int (length (filter (\<lambda>e. event_type e = ''battle_started'') evs))
   \<and> battles_won (bc_run evs s)
       = battles_won s + int (length (filter (\<lambda>e. event_type e = ''battle_ended''
             \<and> map_of (data e) ''result'' = Some (PStr ''won'')) evs))
   \<and> battles_lost (bc_run evs s)
       = battles_lost s + int (length (filter (\<lambda>e. event_type e = ''battle_ended''
             \<and> map_of (data e) ''result'' = Some (PStr ''lost'')) evs))
   \<and> bc_get_statistics (bc_run battles3 bc_init)
       = [(''total_battles'', VInt 3), (''battles_won'', VInt 2), (''battles_lost'', VInt 1),
          (''win_rate'', VFloat (2 / 3)), (''last_battle_time'', VTime 3)]"
proof -
  have a: "battle_count (bc_on_battle_started ev s) = battle_count s + 1
   \<and> last_battle_time (bc_on_battle_started ev s) = Some (timestamp ev)
   \<and> battles_won (bc_on_battle_started ev s) = battles_won s
   \<and> battles_lost (bc_on_battle_started ev s) = battles_lost s"
    by (simp add: bc_on_battle_started_def)
  have b: "battles_won (bc_on_battle_ended ev s)
       = battles_won s + (if map_of (data ev) ''result'' = Some (PStr ''won'') then 1 else 0)
   \<and> battles_lost (bc_on_battle_ended ev s)
       = battles_lost s + (if map_of (data ev) ''result'' = Some (PStr ''lost'') then 1 else 0)
   \<and> battle_count (bc_on_battle_ended ev s) = battle_count s"
    by (auto simp: bc_on_battle_ended_def dict_get_def Let_def split: option.splits)
  have c: "map_of (bc_get_statistics s) ''win_rate''
       = Some (if battle_count s > 0
               then VFloat (of_int (battles_won s) / of_int (battle_count s)) else VInt 0)"
    by (simp add: bc_get_statistics_def)
  from a b c bc_run_counts [of evs s] bc_scenario show ?thesis by blast
qed

subsection \<open>HealthMonitor\<close>

lemma hm_trace:
  "map current_health
     [hm_init, hm_run [damage25] hm_init, hm_run [damage25, damage15] hm_init,
      hm_run [damage25, damage15, heal30] hm_init] = [100, 75, 60, 90]
   \<and> map_of (hm_get_statistics (hm_run [damage25, damage15, heal30] hm_init)) ''net_damage''
       = Some (VInt 10)"
  by (simp add: damage25_def damage15_def heal30_def mk_event_def hm_init_def hm_observe_def
      hm_on_player_damaged_def hm_on_player_healed_def dict_get_def hm_get_statistics_def)

text \<open>
  Claim C6: damage \<open>d\<close> sets the health to \<open>max(0, health - d)\<close> and adds \<open>d\<close> itself
  to \<open>damage_taken\<close>; healing \<open>h\<close> sets the health to \<open>min(max_health, health + h)\<close>
  and adds \<open>h\<close> itself to \<open>healing_received\<close>; \<open>player_fainted\<close> sets the health
  to 0 and adds one knockout in any state, so after any events; \<open>net_damage\<close> is
  \<open>damage_taken - healing_received\<close>. Damage 25, damage 15 and healing 30 from the
  initial health 100 give the health 75, 60, 90 and a net damage of 10.
\<close>

theorem health_monitor_rules:
  "(map_of (data ev) ''damage'' = Some (PInt d) \<longrightarrow>
      hm_on_player_damaged ev s
        = Inr (s\<lparr>damage_taken := damage_taken s + d,
                  current_health := max 0 (current_health s - d)\<rparr>))
   \<and> (map_of (data ev) ''healing'' = Some (PInt h) \<longrightarrow>
      hm_on_player_healed ev s
        = Inr (s\<lparr>healing_received := healing_received s + h,
                  current_health := min (max_health s) (current_health s + h)\<rparr>))
   \<and> current_health (hm_on_player_fainted ev s) = 0
   \<and> knockouts (hm_on_player_fainted ev s) = knockouts s + 1
   \<and> current_health (hm_observe (mk_event ''player_fainted'' p t) (hm_run evs hm_init)) = 0
   \<and> knockouts (hm_observe (mk_event ''player_fainted'' p t) (hm_run evs hm_init))
       = knockouts (hm_run evs hm_init) + 1
   \<and> map_of (hm_get_statistics s) ''net_damage''
       = Some (VInt (damage_taken s - healing_received s))
   \<and> map current_health
       [hm_init, hm_run [damage25] hm_init, hm_run [damage25, damage15] hm_init,
        hm_run [damage25, damage15, heal30] hm_init] = [100, 75, 60, 90]
   \<and> map_of (hm_get_statistics (hm_run [damage25, damage15, heal30] hm_init)) ''net_damage''
       = Some (VInt 10)"
proof -
  have a: "map_of (data ev) ''damage'' = Some (PInt d) \<longrightarrow>
      hm_on_player_damaged ev s
        = Inr (s\<lparr>damage_taken := damage_taken s + d,
                  current_health := max 0 (current_health s - d)\<rparr>)"
    by (simp add: hm_on_player_damaged_def dict_get_def)
  have b: "map_of (data ev) ''healing'' = Some (PInt h) \<longrightarrow>
      hm_on_player_healed ev s
        = Inr (s\<lparr>healing_received := healing_received s + h,
                  current_health := min (max_health s) (current_health s + h)\<rparr>)"
    by (simp add: hm_on_player_healed_def dict_get_def)
  have c: "current_health (hm_on_player_fainted ev s) = 0
       \<and> knockouts (hm_on_player_fainted ev s) = knockouts s + 1" for ev s
    by (simp add: hm_on_player_fainted_def)
  have d: "hm_observe (mk_event ''player_fainted'' p t) s' = hm_on_player_fainted (mk_event ''player_fainted'' p t) s'" for s'
    by (simp add: hm_observe_def mk_event_def)
  have e: "map_of (hm_get_statistics s) ''net_damage''
       = Some (VInt (damage_taken s - healing_received s))"
    by (simp add: hm_get_statistics_def)
  from a b c [of ev s] c [of "mk_event ''player_fainted'' p t" "hm_run evs hm_init"] d e hm_trace
  show ?thesis by simp
qed

theorem health_monitor_rules_witness:
  "map_of (data damage25) ''damage'' = Some (PInt 25)
   \<and> hm_on_player_damaged damage25 hm_init
       = Inr (hm_init\<lparr>damage_taken := 25, current_health := 75\<rparr>)
   \<and> map_of (data heal30) ''healing'' = Some (PInt 30)
   \<and> hm_on_player_healed heal30 hm_init
       = Inr (hm_init\<lparr>healing_received := 30, current_health := 100\<rparr>)"
proof -
  have a: "map_of (data damage25) ''damage'' = Some (PInt 25)"
    and b: "map_of (data heal30) ''healing'' = Some (PInt 30)"
    by (simp_all add: damage25_def heal30_def mk_event_def)
  from health_monitor_rules [where ev = damage25 and d = 25 and s = hm_init and h = 0 and p = "[]" and t = 0 and evs = "[]"] a
  have c: "hm_on_player_damaged damage25 hm_init
        = Inr (hm_init\<lparr>damage_taken := damage_taken hm_init + 25,
                  current_health := max 0 (current_health hm_init - 25)\<rparr>)"
    by blast
  from health_monitor_rules [where ev = heal30 and h = 30 and s = hm_init and d = 0 and p = "[]" and t = 0 and evs = "[]"] b
  have d: "hm_on_player_healed heal30 hm_init
        = Inr (hm_init\<lparr>healing_received := healing_received hm_init + 30,
                  current_health := min (max_health hm_init) (current_health hm_init + 30)\<rparr>)"
    by blast
  show ?thesis using a b c d by (simp add: hm_init_def)
qed

subsection \<open>GameTimeTracker\<close>

lemma gt_start_time_None:
  "\<forall>e \<in> set evs. event_type e \<noteq> ''game_started'' \<Longrightarrow> start_time s = None \<Longrightarrow>
     start_time (gt_run evs s) = None"
proof (induction evs arbitrary: s)
  case Nil
  then show ?case by simp
next
  case (Cons ev evs)
  from Cons.prems have "start_time (gt_observe ev s) = None"
    by (auto simp: gt_observe_def gt_on_game_ended_def gt_on_game_paused_def
        gt_on_game_resumed_def split: option.splits)
  with Cons show ?case by simp
qed

lemma gt_scenario:
  "gt_get_statistics now (gt_run (session t0) gt_init)
     = [(''start_time'', VTime t0), (''end_time'', VTime (t0 + 20000000)),
        (''total_duration_seconds'', VFloat 20), (''active_duration_seconds'', VFloat 15),
        (''pause_count'', VInt 1), (''total_pause_duration_seconds'', VFloat 5)]"
  by (simp add: session_def mk_event_def gt_init_def gt_observe_def gt_on_game_started_def
      gt_on_game_ended_def gt_on_game_paused_def gt_on_game_resumed_def gt_get_statistics_def
      total_seconds_def)

text \<open>
  Claim C7: \<open>game_resumed\<close> without an open pause leaves the tracker as it is;
  \<open>get_statistics\<close> on a tracker that has not seen \<open>game_started\<close> (whatever else
  it has seen) returns the snapshot \<open>{"status": "not_started"}\<close>; and the session
  started at \<open>t0\<close>, paused at 10 s, resumed at 15 s and ended at 20 s has one pause,
  5 s of pause, 20 s in total and 15 s active, whenever the statistics are read.
\<close>

theorem game_time_tracker_rules:
  "(current_pause_start s = None \<longrightarrow> gt_on_game_resumed ev s = s)
   \<and> (start_time s = None \<longrightarrow> gt_get_statistics now s = [(''status'', VStr ''not_started'')])
   \<and> ((\<forall>e \<in> set evs. event_type e \<noteq> ''game_started'') \<longrightarrow>
        gt_get_statistics now (gt_run evs gt_init) = [(''status'', VStr ''not_started'')])
   \<and> gt_get_statistics now (gt_run (session t0) gt_init)
       = [(''start_time'', VTime t0), (''end_time'', VTime (t0 + 20000000)),
          (''total_duration_seconds'', VFloat 20), (''active_duration_seconds'', VFloat 15),
          (''pause_count'', VInt 1), (''total_pause_duration_seconds'', VFloat 5)]"
proof (intro conjI impI)
  assume "current_pause_start s = None"
  then show "gt_on_game_resumed ev s = s" by (simp add: gt_on_game_resumed_def)
next
  assume "start_time s = None"
  then show "gt_get_statistics now s = [(''status'', VStr ''not_started'')]"
    by (simp add: gt_get_statistics_def)
next
  assume "\<forall>e \<in> set evs. event_type e \<noteq> ''game_started''"
  then have "start_time (gt_run evs gt_init) = None"
    by (rule gt_start_time_None) (simp add: gt_init_def)
  then show "gt_get_statistics now (gt_run evs gt_init) = [(''status'', VStr ''not_started'')]"
    by (simp add: gt_get_statistics_def)
next
  show "gt_get_statistics now (gt_run (session t0) gt_init)
       = [(''start_time'', VTime t0), (''end_time'', VTime (t0 + 20000000)),
          (''total_duration_seconds'', VFloat 20), (''active_duration_seconds'', VFloat 15),
          (''pause_count'', VInt 1), (''total_pause_duration_seconds'', VFloat 5)]"
    by (rule gt_scenario)
qed

theorem game_time_tracker_rules_witness:
  "current_pause_start gt_init = None
   \<and> gt_on_game_resumed (mk_event ''game_resumed'' [] 5) gt_init = gt_init
   \<and> start_time gt_init = None
   \<and> gt_get_statistics 9 gt_init = [(''status'', VStr ''not_started'')]
   \<and> event_type (mk_event ''game_paused'' [] 1) \<noteq> ''game_started''
   \<and> event_type (mk_event ''game_resumed'' [] 2) \<noteq> ''game_started''
   \<and> gt_get_statistics 9 (gt_run [mk_event ''game_paused'' [] 1, mk_event ''game_resumed'' [] 2] gt_init)
       = [(''status'', VStr ''not_started'')]"
proof -
  have a: "current_pause_start gt_init = None" and b: "start_time gt_init = None"
    by (simp_all add: gt_init_def)
  have c: "\<forall>e \<in> set [mk_event ''game_paused'' [] 1, mk_event ''game_resumed'' [] 2].
         event_type e \<noteq> ''game_started''"
    by (simp add: mk_event_def)
  from game_time_tracker_rules [of gt_init "mk_event ''game_resumed'' [] 5" 9
      "[mk_event ''game_paused'' [] 1, mk_event ''game_resumed'' [] 2]" 0] a b c
  show ?thesis by (simp add: mk_event_def)
qed

subsection \<open>Reading statistics twice\<close>

text \<open>
  Claim C8, as stated: two consecutive calls of \<open>get_statistics\<close> with no event in
  between return equal snapshots, for every processor and for the \<open>GameTimeTracker\<close>
  in every reachable state. A tracker that has seen \<open>game_started\<close> and no
  \<open>game_ended\<close> computes its durations from \<open>datetime.now()\<close>: read one second and
  two seconds after the start, it reports a total duration of 1 and of 2.
\<close>

theorem running_tracker_statistics_differ:
  "running started_tracker
   \<and> map_of (gt_get_statistics 1000000 started_tracker) ''total_duration_seconds'' = Some (VFloat 1)
   \<and> map_of (gt_get_statistics 2000000 started_tracker) ''total_duration_seconds'' = Some (VFloat 2)
   \<and> gt_get_statistics 1000000 started_tracker \<noteq> gt_get_statistics 2000000 started_tracker"
  by (simp add: running_def started_tracker_def gt_on_game_started_def mk_event_def gt_init_def
      gt_get_statistics_def total_seconds_def)

lemma gt_get_statistics_clock:
  "gt_get_statistics clock1 s = gt_get_statistics clock2 s \<longleftrightarrow> \<not> running s \<or> clock1 = clock2"
  by (auto simp: running_def gt_get_statistics_def total_seconds_def Let_def split: option.splits)

text \<open>
  Claim C8, amended: \<open>get_statistics\<close> changes no state (the methods assign to no
  attribute, so the model returns the snapshot alone), and two calls with no event in
  between return equal snapshots for every processor other than the \<open>GameTimeTracker\<close>,
  and for the \<open>GameTimeTracker\<close> exactly when it is not running (not started, or
  ended) or both calls read the same instant from the clock.
\<close>

theorem statistics_repeatable:
  "get_statistics clock1 a r = get_statistics clock2 a r
     \<longleftrightarrow> r \<noteq> TimeRef \<or> \<not> running (game_time a) \<or> clock1 = clock2"
proof (cases r)
  case TimeRef
  then show ?thesis
    using gt_get_statistics_clock [of clock1 "game_time a" clock2]
    by (simp add: get_statistics_def)
qed (simp_all add: get_statistics_def)

theorem statistics_repeatable_witness:
  "\<not> running (game_time init_app)
   \<and> get_statistics 1000000 init_app TimeRef = get_statistics 2000000 init_app TimeRef
   \<and> BattleRef \<noteq> TimeRef
   \<and> get_statistics 1000000 started_app BattleRef = get_statistics 2000000 started_app BattleRef"
proof -
  have n: "\<not> running (game_time init_app)"
    by (simp add: running_def init_app_def gt_init_def)
  from statistics_repeatable [of 1000000 init_app TimeRef 2000000] n
  have a: "get_statistics 1000000 init_app TimeRef = get_statistics 2000000 init_app TimeRef"
    by blast
  from statistics_repeatable [of 1000000 started_app BattleRef 2000000]
  have b: "get_statistics 1000000 started_app BattleRef = get_statistics 2000000 started_app BattleRef"
    by simp
  from n a b show ?thesis by simp
qed

subsection \<open>ReportGenerator\<close>

text \<open>
  What \<open>generate_report\<close> collects: with the names of the dictionary distinct (as the
  keys of a dictionary are), the report maps each registered name to the statistics of
  its object, and has no entry for an object without \<open>get_statistics\<close>.
\<close>

lemma collect_absent:
  "name \<notin> fst ` set ps \<Longrightarrow> map_of (collect clock a ps acc) name = map_of acc name"
  by (induction ps arbitrary: acc) (auto simp: update_conv' split: option.splits)

lemma collect_present:
  "distinct (map fst ps) \<Longrightarrow> (name, r) \<in> set ps \<Longrightarrow> map_of acc name = None \<Longrightarrow>
     map_of (collect clock a ps acc) name = get_statistics clock a r"
proof (induction ps arbitrary: acc)
  case Nil
  then show ?case by simp
next
  case (Cons p ps)
  show ?case
  proof (cases "p = (name, r)")
    case True
    with Cons.prems have "name \<notin> fst ` set ps" by auto
    with True Cons.prems(3) show ?thesis
      by (cases "get_statistics clock a r") (simp_all add: collect_absent update_conv')
  next
    case False
    with Cons.prems have in_ps: "(name, r) \<in> set ps" and d: "distinct (map fst ps)"
      and ne: "fst p \<noteq> name"
      by (auto simp: rev_image_eqI)
    show ?thesis
    proof (cases "get_statistics clock a (snd p)")
      case None
      with Cons.IH [OF d in_ps Cons.prems(3)] show ?thesis by simp
    next
      case (Some snap)
      have "map_of (AList.update (fst p) snap acc) name = None"
        using ne Cons.prems(3) by (simp add: update_conv')
      from Cons.IH [OF d in_ps this] Some show ?thesis by simp
    qed
  qed
qed

lemma generate_report_statistics:
  "distinct (map fst (processors (report_generator a))) \<Longrightarrow>
   (name, r) \<in> set (processors (report_generator a)) \<Longrightarrow>
     map_of (statistics (generate_report now clock a)) name = get_statistics clock a r"
  by (simp add: generate_report_def collect_present)

text \<open>
  Claim C9: both handlers generate the same report, stamped with the current instant,
  and hand it to \<open>print_report\<close>; \<open>on_generate_report\<close> then adds one to
  \<open>reports_generated\<close>, and \<open>on_game_ended\<close> does not. After one \<open>game_ended\<close> on
  the fresh application one report has been produced and the generator's statistics
  still say \<open>reports_generated = 0\<close>.
\<close>

theorem game_ended_report_not_counted:
  "stdout (rg_on_generate_report now clock ev a) = stdout a @ [generate_report now clock a]
   \<and> stdout (rg_on_game_ended now clock ev a) = stdout a @ [generate_report now clock a]
   \<and> generated_at (generate_report now clock a) = now
   \<and> reports_generated (report_generator (rg_on_generate_report now clock ev a))
       = reports_generated (report_generator a) + 1
   \<and> reports_generated (report_generator (rg_on_game_ended now clock ev a))
       = reports_generated (report_generator a)
   \<and> length (stdout (rg_on_game_ended 5 6 (mk_event ''game_ended'' [] 4) init_app)) = 1
   \<and> rg_get_statistics (report_generator (rg_on_game_ended 5 6 (mk_event ''game_ended'' [] 4) init_app))
       = [(''reports_generated'', VInt 0)]"
  by (simp add: rg_on_generate_report_def rg_on_game_ended_def print_report_def Let_def
      generate_report_def rg_get_statistics_def init_app_def)

end
